theory Spec2Isabelle
  imports Main "HOL-Library.AList"
begin

section \<open>Editor values shared by the components\<close>

text \<open>
  A \<^verbatim>\<open>vscode.Uri\<close>, reduced to the components the extension reads or builds:
  the scheme, the path (read as \<^verbatim>\<open>fsPath\<close> for a file, given as \<^verbatim>\<open>path\<close> to
  \<^verbatim>\<open>Uri.from\<close>) and the query. \<^verbatim>\<open>uri.toString()\<close> is the text of these components,
  so two URIs have the same text exactly when they are the same record; tables keyed by
  \<^verbatim>\<open>uri.toString()\<close> are keyed by the record.
\<close>

record Uri =
  scheme :: string
  fsPath :: string
  query :: string

record Position =
  line :: nat
  character :: nat

text \<open>
  A \<^verbatim>\<open>vscode.TextEditor\<close> as the open-files manager reads it: the document's URI,
  \<^verbatim>\<open>editor.selection.active\<close> (tested for presence by the code) and the text
  \<^verbatim>\<open>editor.document.getText(editor.selection)\<close>. Strings are sequences of code
  units, which is what \<^verbatim>\<open>length\<close> and \<^verbatim>\<open>substring\<close> count.
\<close>

record TextEditor =
  document_uri :: Uri
  selection_active :: "Position option"
  selection_text :: string

section \<open>open-files-manager.ts\<close>

text \<open>The \<^verbatim>\<open>File\<close> objects of the tracked list; an absent optional field is \<open>None\<close>.\<close>

record File =
  path :: string
  timestamp :: nat
  isActive :: bool
  cursor :: "Position option"
  selectedText :: "string option"

definition MAX_FILES :: nat where
  "MAX_FILES = 10"

definition MAX_SELECTED_TEXT_LENGTH :: nat where
  "MAX_SELECTED_TEXT_LENGTH = 16384"

text \<open>
  The manager mutates its \<^verbatim>\<open>File\<close> objects and its array in place and hands out
  arrays that hold the same objects, so objects and arrays live in a store: \<open>objects\<close>
  maps a reference to the object's current fields, \<open>arrays\<close> maps a reference to the
  array's current elements (references of objects), and \<open>nextRef\<close> and \<open>nextArray\<close>
  are the references the next object literal and the next new array get. The array the
  field initialiser assigns to \<^verbatim>\<open>this.openFiles\<close> is the first one created; the field is
  never assigned again, and \<^verbatim>\<open>splice\<close>, \<^verbatim>\<open>unshift\<close> and \<^verbatim>\<open>pop\<close> write that array.
\<close>

record OpenFilesManager =
  objects :: "nat \<Rightarrow> File"
  arrays :: "nat \<Rightarrow> nat list"
  nextRef :: nat
  nextArray :: nat

definition openFilesRef :: nat where
  "openFilesRef = 0"

definition openFiles :: "OpenFilesManager \<Rightarrow> nat list" where
  "openFiles m = arrays m openFilesRef"

definition setOpenFiles :: "nat list \<Rightarrow> OpenFilesManager \<Rightarrow> OpenFilesManager" where
  "setOpenFiles xs m = m\<lparr>arrays := (arrays m)(openFilesRef := xs)\<rparr>"

definition newFile :: File where
  "newFile = \<lparr>path = [], timestamp = 0, isActive = False, cursor = None, selectedText = None\<rparr>"

definition emptyManager :: OpenFilesManager where
  "emptyManager = \<lparr>objects = (\<lambda>_. newFile), arrays = (\<lambda>_. []), nextRef = 0, nextArray = 1\<rparr>"

text \<open>\<^verbatim>\<open>Array.prototype.findIndex\<close>; \<open>None\<close> is the result \<^verbatim>\<open>-1\<close>.\<close>

fun findIndex :: "('a \<Rightarrow> bool) \<Rightarrow> 'a list \<Rightarrow> nat option" where
  "findIndex P [] = None"
| "findIndex P (x # xs) = (if P x then Some 0 else map_option Suc (findIndex P xs))"

text \<open>\<^verbatim>\<open>xs.splice(i, 1)\<close>.\<close>

definition splice1 :: "nat \<Rightarrow> 'a list \<Rightarrow> 'a list" where
  "splice1 i xs = take i xs @ drop (Suc i) xs"

definition isFileUri :: "Uri \<Rightarrow> bool" where
  "isFileUri uri \<longleftrightarrow> scheme uri = ''file''"

text \<open>The fields of the tracked objects, in list order, as a reader of the array sees them.\<close>

definition tracked :: "OpenFilesManager \<Rightarrow> File list" where
  "tracked m = map (objects m) (openFiles m)"

definition setObject :: "nat \<Rightarrow> File \<Rightarrow> OpenFilesManager \<Rightarrow> OpenFilesManager" where
  "setObject r f m = m\<lparr>objects := (objects m)(r := f)\<rparr>"

text \<open>
  \<^verbatim>\<open>updateActiveContext\<close>: the first object with the editor's path, if it is active,
  gets the cursor (line plus one, character as it is) and the selected text; the empty
  string becomes \<^verbatim>\<open>undefined\<close>, and a text longer than the limit is cut and marked.
\<close>

definition truncateSelection :: "string \<Rightarrow> string option" where
  "truncateSelection s =
     (let selectedText = (if s = [] then None else Some s)
      in case selectedText of
           None \<Rightarrow> None
         | Some t \<Rightarrow>
             if length t > MAX_SELECTED_TEXT_LENGTH
             then Some (take MAX_SELECTED_TEXT_LENGTH t @ ''... [TRUNCATED]'')
             else Some t)"

definition cursorOf :: "TextEditor \<Rightarrow> Position option" where
  "cursorOf editor =
     (case selection_active editor of
        Some p \<Rightarrow> Some \<lparr>line = line p + 1, character = character p\<rparr>
      | None \<Rightarrow> None)"

definition updateActiveContext :: "TextEditor \<Rightarrow> OpenFilesManager \<Rightarrow> OpenFilesManager" where
  "updateActiveContext editor m =
     (case find (\<lambda>r. path (objects m r) = fsPath (document_uri editor)) (openFiles m) of
        None \<Rightarrow> m
      | Some r \<Rightarrow>
          if \<not> isActive (objects m r) then m
          else setObject r
                 ((objects m r)\<lparr>cursor := cursorOf editor,
                                selectedText := truncateSelection (selection_text editor)\<rparr>) m)"

text \<open>The four commented blocks of \<^verbatim>\<open>addOrMoveToFront\<close>, then the function.\<close>

definition deactivatePrevious :: "OpenFilesManager \<Rightarrow> OpenFilesManager" where
  "deactivatePrevious m =
     (case find (\<lambda>r. isActive (objects m r)) (openFiles m) of
        None \<Rightarrow> m
      | Some r \<Rightarrow>
          setObject r ((objects m r)\<lparr>isActive := False, cursor := None, selectedText := None\<rparr>) m)"

definition removePath :: "string \<Rightarrow> OpenFilesManager \<Rightarrow> OpenFilesManager" where
  "removePath p m =
     (case findIndex (\<lambda>r. path (objects m r) = p) (openFiles m) of
        None \<Rightarrow> m
      | Some index \<Rightarrow> setOpenFiles (splice1 index (openFiles m)) m)"

definition unshiftActive :: "string \<Rightarrow> nat \<Rightarrow> OpenFilesManager \<Rightarrow> OpenFilesManager" where
  "unshiftActive p now m =
     setOpenFiles (nextRef m # openFiles m)
       (m\<lparr>objects := (objects m)(nextRef m :=
            \<lparr>path = p, timestamp = now, isActive = True, cursor = None, selectedText = None\<rparr>),
          nextRef := Suc (nextRef m)\<rparr>)"

definition enforceMax :: "OpenFilesManager \<Rightarrow> OpenFilesManager" where
  "enforceMax m =
     (if length (openFiles m) > MAX_FILES then setOpenFiles (butlast (openFiles m)) m else m)"

text \<open>\<open>now\<close> is the value \<^verbatim>\<open>Date.now()\<close> returns during the call.\<close>

definition addOrMoveToFront :: "nat \<Rightarrow> TextEditor \<Rightarrow> OpenFilesManager \<Rightarrow> OpenFilesManager" where
  "addOrMoveToFront now editor m =
     updateActiveContext editor
       (enforceMax
         (unshiftActive (fsPath (document_uri editor)) now
           (removePath (fsPath (document_uri editor))
             (deactivatePrevious m))))"

definition remove :: "Uri \<Rightarrow> OpenFilesManager \<Rightarrow> OpenFilesManager" where
  "remove uri m = removePath (fsPath uri) m"

definition rename :: "Uri \<Rightarrow> Uri \<Rightarrow> OpenFilesManager \<Rightarrow> OpenFilesManager" where
  "rename oldUri newUri m =
     (case findIndex (\<lambda>r. path (objects m r) = fsPath oldUri) (openFiles m) of
        None \<Rightarrow> m
      | Some index \<Rightarrow>
          (let r = openFiles m ! index
           in setObject r ((objects m r)\<lparr>path := fsPath newUri\<rparr>) m))"

text \<open>
  The \<^verbatim>\<open>state\<close> getter: \<^verbatim>\<open>[...this.openFiles]\<close> creates an array with the elements
  of the manager's array, and the context returned holds the new array; \<open>isTrusted\<close> is
  read from the workspace. The getter returns the context and the store with the new
  array in it.
\<close>

record IdeContext =
  openFiles_copy :: nat
  isTrusted :: bool

definition state :: "bool \<Rightarrow> OpenFilesManager \<Rightarrow> IdeContext \<times> OpenFilesManager" where
  "state trusted m =
     (\<lparr>openFiles_copy = nextArray m, isTrusted = trusted\<rparr>,
      m\<lparr>arrays := (arrays m)(nextArray m := openFiles m), nextArray := Suc (nextArray m)\<rparr>)"

text \<open>What a holder of a context reads from it when the store is that of \<open>m\<close>.\<close>

definition observe :: "OpenFilesManager \<Rightarrow> IdeContext \<Rightarrow> File list" where
  "observe m c = map (objects m) (arrays m (openFiles_copy c))"

text \<open>
  The editor events the constructor subscribes to, each with the guard of its callback.
  The debounce timer only delays the change signal and is left out.
\<close>

datatype event =
    ActiveEditorChanged "TextEditor option" nat
  | SelectionChanged TextEditor
  | DocumentClosed Uri
  | FilesDeleted "Uri list"
  | FilesRenamed "(Uri \<times> Uri) list"

fun deleteFiles :: "Uri list \<Rightarrow> OpenFilesManager \<Rightarrow> OpenFilesManager" where
  "deleteFiles [] m = m"
| "deleteFiles (uri # uris) m = deleteFiles uris (if isFileUri uri then remove uri m else m)"

fun renameFiles :: "(Uri \<times> Uri) list \<Rightarrow> OpenFilesManager \<Rightarrow> OpenFilesManager" where
  "renameFiles [] m = m"
| "renameFiles ((oldUri, newUri) # files) m =
     renameFiles files
       (if isFileUri oldUri
        then (if isFileUri newUri then rename oldUri newUri m else remove oldUri m)
        else m)"

fun handleEvent :: "event \<Rightarrow> OpenFilesManager \<Rightarrow> OpenFilesManager" where
  "handleEvent (ActiveEditorChanged None now) m = m"
| "handleEvent (ActiveEditorChanged (Some editor) now) m =
     (if isFileUri (document_uri editor) then addOrMoveToFront now editor m else m)"
| "handleEvent (SelectionChanged editor) m =
     (if isFileUri (document_uri editor) then updateActiveContext editor m else m)"
| "handleEvent (DocumentClosed uri) m = (if isFileUri uri then remove uri m else m)"
| "handleEvent (FilesDeleted uris) m = deleteFiles uris m"
| "handleEvent (FilesRenamed files) m = renameFiles files m"

fun handleEvents :: "event list \<Rightarrow> OpenFilesManager \<Rightarrow> OpenFilesManager" where
  "handleEvents [] m = m"
| "handleEvents (e # es) m = handleEvents es (handleEvent e m)"

section \<open>diff-manager.ts\<close>

definition DIFF_SCHEME :: string where
  "DIFF_SCHEME = ''gemini-diff''"

record DiffInfo =
  originalFilePath :: string
  newContent :: string
  rightDocUri :: Uri

text \<open>The two notifications the manager fires: the method with \<^verbatim>\<open>filePath\<close> and \<^verbatim>\<open>content\<close>.\<close>

datatype notification =
    DiffAccepted string string
  | DiffClosed string string

text \<open>
  The editor as the manager uses it: the text documents it has loaded with their current
  text (which the user may have edited), the diff tabs as pairs of original and modified
  URI, and the context key \<^verbatim>\<open>gemini.diff.isVisible\<close>.
\<close>

record Editor =
  documents :: "(Uri \<times> string) list"
  tabs :: "(Uri \<times> Uri) list"
  diffIsVisible :: bool

text \<open>
  \<open>diffDocuments\<close> and the provider's \<open>content\<close> are JavaScript maps: \<^verbatim>\<open>set\<close> on a
  present key keeps its place and on a new key appends (\<^const>\<open>AList.update\<close>),
  \<^verbatim>\<open>delete\<close> removes the key (\<^const>\<open>AList.delete\<close>), iteration is in list order.
\<close>

record DiffManager =
  diffDocuments :: "(Uri \<times> DiffInfo) list"
  content :: "(Uri \<times> string) list"
  vscode :: Editor

definition emptyDiffManager :: DiffManager where
  "emptyDiffManager =
     \<lparr>diffDocuments = [], content = [],
      vscode = \<lparr>documents = [], tabs = [], diffIsVisible = False\<rparr>\<rparr>"

definition provideTextDocumentContent :: "Uri \<Rightarrow> DiffManager \<Rightarrow> string" where
  "provideTextDocumentContent uri dm =
     (case map_of (content dm) uri of Some c \<Rightarrow> c | None \<Rightarrow> [])"

text \<open>
  \<^verbatim>\<open>setContent\<close> stores the text and fires the provider's change event, on which the
  editor reads a loaded document of that URI again.
\<close>

definition setContent :: "Uri \<Rightarrow> string \<Rightarrow> DiffManager \<Rightarrow> DiffManager" where
  "setContent uri c dm =
     dm\<lparr>content := AList.update uri c (content dm),
        vscode := (vscode dm)\<lparr>documents :=
          (if map_of (documents (vscode dm)) uri = None then documents (vscode dm)
           else AList.update uri c (documents (vscode dm)))\<rparr>\<rparr>"

definition deleteContent :: "Uri \<Rightarrow> DiffManager \<Rightarrow> DiffManager" where
  "deleteContent uri dm = dm\<lparr>content := AList.delete uri (content dm)\<rparr>"

text \<open>
  \<^verbatim>\<open>vscode.workspace.openTextDocument(uri)\<close> followed by \<^verbatim>\<open>getText()\<close>: the text of
  the loaded document, or, for a document not loaded yet, the text the provider gives,
  which the editor then holds.
\<close>

definition openTextDocument :: "Uri \<Rightarrow> DiffManager \<Rightarrow> string \<times> DiffManager" where
  "openTextDocument uri dm =
     (case map_of (documents (vscode dm)) uri of
        Some t \<Rightarrow> (t, dm)
      | None \<Rightarrow>
          (let t = provideTextDocumentContent uri dm
           in (t, dm\<lparr>vscode := (vscode dm)\<lparr>documents := AList.update uri t (documents (vscode dm))\<rparr>\<rparr>)))"

definition setContext :: "bool \<Rightarrow> DiffManager \<Rightarrow> DiffManager" where
  "setContext v dm = dm\<lparr>vscode := (vscode dm)\<lparr>diffIsVisible := v\<rparr>\<rparr>"

definition addDiffDocument :: "Uri \<Rightarrow> DiffInfo \<Rightarrow> DiffManager \<Rightarrow> DiffManager" where
  "addDiffDocument uri diffInfo dm = dm\<lparr>diffDocuments := AList.update uri diffInfo (diffDocuments dm)\<rparr>"

text \<open>
  The command \<^verbatim>\<open>vscode.diff\<close>: the right document is loaded and the diff is shown in a
  tab, a new one unless a tab of the same two documents is open.
\<close>

definition vscode_diff :: "Uri \<Rightarrow> Uri \<Rightarrow> DiffManager \<Rightarrow> DiffManager" where
  "vscode_diff leftDocUri rightUri dm =
     (let dm' = snd (openTextDocument rightUri dm)
      in dm'\<lparr>vscode := (vscode dm')\<lparr>tabs :=
           (if (leftDocUri, rightUri) \<in> set (tabs (vscode dm')) then tabs (vscode dm')
            else tabs (vscode dm') @ [(leftDocUri, rightUri)])\<rparr>\<rparr>)"

text \<open>
  \<^verbatim>\<open>showDiff\<close>. \<open>rand\<close> is the text of the number \<^verbatim>\<open>Math.random()\<close> returns in the
  call, \<open>exists\<close> tells whether \<^verbatim>\<open>fs.stat\<close> finds the file.
\<close>

definition showDiff :: "string \<Rightarrow> string \<Rightarrow> string \<Rightarrow> bool \<Rightarrow> DiffManager \<Rightarrow> DiffManager" where
  "showDiff filePath proposed rand exists dm =
     (let fileUri = \<lparr>scheme = ''file'', fsPath = filePath, query = []\<rparr>;
          rightUri = \<lparr>scheme = DIFF_SCHEME, fsPath = filePath, query = ''rand='' @ rand\<rparr>;
          dm1 = setContent rightUri proposed dm;
          dm2 = addDiffDocument rightUri
                  \<lparr>originalFilePath = filePath, newContent = proposed, rightDocUri = rightUri\<rparr> dm1;
          dm3 = setContext True dm2;
          leftDocUri = (if exists then fileUri
                        else \<lparr>scheme = ''untitled'', fsPath = filePath, query = []\<rparr>)
      in vscode_diff leftDocUri rightUri dm3)"

text \<open>\<^verbatim>\<open>closeDiffEditor\<close>: the shared teardown; only the first matching tab is closed.\<close>

definition closeTab :: "Uri \<Rightarrow> (Uri \<times> Uri) list \<Rightarrow> (Uri \<times> Uri) list" where
  "closeTab rightUri ts =
     (case findIndex (\<lambda>tab. snd tab = rightUri) ts of
        None \<Rightarrow> ts
      | Some i \<Rightarrow> splice1 i ts)"

definition closeDiffEditor :: "Uri \<Rightarrow> DiffManager \<Rightarrow> DiffManager" where
  "closeDiffEditor rightUri dm =
     (let diffInfo = map_of (diffDocuments dm) rightUri;
          dm1 = setContext False dm;
          dm2 = (case diffInfo of
                   None \<Rightarrow> dm1
                 | Some _ \<Rightarrow> deleteContent rightUri
                               (dm1\<lparr>diffDocuments := AList.delete rightUri (diffDocuments dm1)\<rparr>))
      in dm2\<lparr>vscode := (vscode dm2)\<lparr>tabs := closeTab rightUri (tabs (vscode dm2))\<rparr>\<rparr>)"

text \<open>
  Each operation returns the notifications it fires, in order, and the new state; it is
  taken to run to its end before another one starts.
\<close>

definition closeDiff :: "string \<Rightarrow> bool \<Rightarrow> DiffManager \<Rightarrow> string option \<times> notification list \<times> DiffManager" where
  "closeDiff filePath suppressNotification dm =
     (case find (\<lambda>entry. originalFilePath (snd entry) = filePath) (diffDocuments dm) of
        None \<Rightarrow> (None, [], dm)
      | Some (uriToClose, _) \<Rightarrow>
          (let (modifiedContent, dm1) = openTextDocument uriToClose dm;
               dm2 = closeDiffEditor uriToClose dm1
           in (Some modifiedContent,
               (if \<not> suppressNotification then [DiffClosed filePath modifiedContent] else []),
               dm2)))"

definition acceptDiff :: "Uri \<Rightarrow> DiffManager \<Rightarrow> notification list \<times> DiffManager" where
  "acceptDiff rightUri dm =
     (case map_of (diffDocuments dm) rightUri of
        None \<Rightarrow> ([], dm)
      | Some diffInfo \<Rightarrow>
          (let (modifiedContent, dm1) = openTextDocument rightUri dm;
               dm2 = closeDiffEditor rightUri dm1
           in ([DiffAccepted (originalFilePath diffInfo) modifiedContent], dm2)))"

definition cancelDiff :: "Uri \<Rightarrow> DiffManager \<Rightarrow> notification list \<times> DiffManager" where
  "cancelDiff rightUri dm =
     (case map_of (diffDocuments dm) rightUri of
        None \<Rightarrow> ([], closeDiffEditor rightUri dm)
      | Some diffInfo \<Rightarrow>
          (let (modifiedContent, dm1) = openTextDocument rightUri dm;
               dm2 = closeDiffEditor rightUri dm1
           in ([DiffClosed (originalFilePath diffInfo) modifiedContent], dm2)))"

text \<open>The user types in the right-hand document of a diff: its text becomes \<open>t\<close>.\<close>

definition editDocument :: "Uri \<Rightarrow> string \<Rightarrow> DiffManager \<Rightarrow> DiffManager" where
  "editDocument uri t dm =
     dm\<lparr>vscode := (vscode dm)\<lparr>documents := AList.update uri t (documents (vscode dm))\<rparr>\<rparr>"

definition diffUri :: "string \<Rightarrow> string \<Rightarrow> Uri" where
  "diffUri filePath rand = \<lparr>scheme = DIFF_SCHEME, fsPath = filePath, query = ''rand='' @ rand\<rparr>"

section \<open>ide-server.ts\<close>

text \<open>
  A request as the middlewares and the two handlers read it. \<open>route\<close> is its method and
  path as far as the application tells them apart: an \<^verbatim>\<open>OPTIONS\<close> request (of any
  path), \<^verbatim>\<open>POST /mcp\<close>, \<^verbatim>\<open>GET /mcp\<close> (Express gives \<^verbatim>\<open>HEAD /mcp\<close> to the same
  handler), or anything else. The headers \<^verbatim>\<open>origin\<close>, \<^verbatim>\<open>host\<close>,
  \<^verbatim>\<open>authorization\<close> and \<^verbatim>\<open>mcp-session-id\<close> are \<open>None\<close> when absent.
  \<open>bodyRejected\<close> is the verdict of \<^verbatim>\<open>express.json\<close> on the raw body: the status of the
  error it raises (400 for a body that is no JSON text, 413 for one above the limit of
  10mb, 415 for an unsupported charset or encoding), or \<open>None\<close> when it accepts the
  request; \<open>body\<close> is then the parsed body.
\<close>

datatype route = Options | PostMcp | GetMcp | OtherRoute

datatype toolCall = OpenDiff string string | CloseDiff string bool

datatype message = Initialize | CallTool toolCall | OtherMessage

record Request =
  route :: route
  bodyRejected :: "nat option"
  origin :: "string option"
  host :: "string option"
  authorization :: "string option"
  mcpSessionId :: "string option"
  body :: message

text \<open>
  The body of a response: a text, the JSON object with the member \<^verbatim>\<open>error\<close>, a
  JSON-RPC error with code and message, what the SDK has written, a page that Express
  writes itself (for an error passed on to it or a request no route matches; its text
  is not modelled), or nothing.
\<close>

datatype responseBody =
    Text string
  | JsonError string
  | JsonRpcError int string
  | Payload string
  | ExpressPage
  | Empty

record Response =
  status :: nat
  responseBody :: responseBody

definition isInitializeRequest :: "message \<Rightarrow> bool" where
  "isInitializeRequest b \<longleftrightarrow> b = Initialize"

text \<open>What is handed to \<^verbatim>\<open>transport.send\<close>.\<close>

datatype outgoing =
    Ping
  | ContextUpdate "File list" bool
  | DiffNotification notification

text \<open>
  A transport object with the two variables its keep-alive closure holds:
  \<open>missedPings\<close> and whether the interval \<open>keepAlive\<close> is still scheduled.
\<close>

record Transport =
  sessionId :: "string option"
  missedPings :: nat
  keepAlive :: bool

text \<open>
  The server. \<open>transportObjects\<close> holds the transports created so far, referred to by
  their index; \<open>transports\<close> is the session table, a plain JavaScript object;
  \<open>sent\<close> lists what has been handed to \<^verbatim>\<open>transport.send\<close>, with the transport.
\<close>

record IDEServer =
  port :: "nat option"
  authToken :: "string option"
  transportObjects :: "Transport list"
  transports :: "(string \<times> nat) list"
  sessionsWithInitialNotification :: "string list"
  diffManager :: DiffManager
  openFilesManager :: "OpenFilesManager option"
  workspaceTrusted :: bool
  sent :: "(nat \<times> outgoing) list"

text \<open>
  Reading \<^verbatim>\<open>obj[key]\<close> of an object created by \<^verbatim>\<open>{}\<close>: an own property, else a
  member inherited from \<^verbatim>\<open>Object.prototype\<close> (each of them a function or an object,
  hence truthy), else \<^verbatim>\<open>undefined\<close>.
\<close>

definition objectPrototypeNames :: "string list" where
  "objectPrototypeNames =
     [''constructor'', ''__defineGetter__'', ''__defineSetter__'', ''hasOwnProperty'',
      ''__lookupGetter__'', ''__lookupSetter__'', ''isPrototypeOf'', ''propertyIsEnumerable'',
      ''toString'', ''valueOf'', ''__proto__'', ''toLocaleString'']"

datatype 'a property = Own 'a | Inherited | Undefined

definition getProperty :: "(string \<times> 'a) list \<Rightarrow> string \<Rightarrow> 'a property" where
  "getProperty obj key =
     (case map_of obj key of
        Some v \<Rightarrow> Own v
      | None \<Rightarrow> if key \<in> set objectPrototypeNames then Inherited else Undefined)"

text \<open>Truthiness of an optional string: present and not empty.\<close>

definition truthy :: "string option \<Rightarrow> bool" where
  "truthy s \<longleftrightarrow> (case s of None \<Rightarrow> False | Some t \<Rightarrow> t \<noteq> [])"

text \<open>\<^verbatim>\<open>String.prototype.split\<close> with a one-character separator.\<close>

fun split :: "char \<Rightarrow> string \<Rightarrow> string list" where
  "split c [] = [[]]"
| "split c (x # xs) =
     (if x = c then [] # split c xs
      else (case split c xs of
              [] \<Rightarrow> [[x]]
            | y # ys \<Rightarrow> (x # y) # ys))"

text \<open>The decimal text of a number, as a template literal renders a port.\<close>

fun decimal :: "nat \<Rightarrow> string" where
  "decimal n =
     (if n < 10 then [''0123456789'' ! n]
      else decimal (n div 10) @ [''0123456789'' ! (n mod 10)])"

declare decimal.simps [simp del]

definition portText :: "IDEServer \<Rightarrow> string" where
  "portText srv = (case port srv of None \<Rightarrow> ''undefined'' | Some n \<Rightarrow> decimal n)"

text \<open>The origin callback, the host check and the authentication.\<close>

definition corsAllows :: "Request \<Rightarrow> bool" where
  "corsAllows req \<longleftrightarrow> \<not> truthy (origin req)"

definition hostAllowed :: "IDEServer \<Rightarrow> Request \<Rightarrow> bool" where
  "hostAllowed srv req \<longleftrightarrow>
     (let host' = (if truthy (host req) then the (host req) else [])
      in host' \<in> set [''localhost:'' @ portText srv, ''127.0.0.1:'' @ portText srv])"

definition unauthorized :: Response where
  "unauthorized = \<lparr>status = 401, responseBody = Text ''Unauthorized''\<rparr>"

text \<open>The authentication middleware: \<open>None\<close> is the call of \<^verbatim>\<open>next()\<close>.\<close>

definition authenticate :: "IDEServer \<Rightarrow> Request \<Rightarrow> Response option" where
  "authenticate srv req =
     (if \<not> truthy (authorization req) then Some unauthorized
      else (let parts = split (CHR '' '') (the (authorization req))
            in if length parts \<noteq> 2 \<or> parts ! 0 \<noteq> ''Bearer'' then Some unauthorized
               else (let token = parts ! 1
                     in if Some token \<noteq> authToken srv then Some unauthorized
                        else None)))"

text \<open>
  \<^verbatim>\<open>transport.handleRequest\<close> belongs to the MCP SDK and is a parameter: given the
  transport and the request it returns the response it has sent, or \<open>None\<close> when it
  throws before sending one, and the server state it leaves, in which it may have run the
  callback \<^verbatim>\<open>onsessioninitialized\<close> and the registered tools.
\<close>

type_synonym sdk = "nat \<Rightarrow> Request \<Rightarrow> IDEServer \<Rightarrow> Response option \<times> IDEServer"

definition onsessioninitialized :: "nat \<Rightarrow> string \<Rightarrow> IDEServer \<Rightarrow> IDEServer" where
  "onsessioninitialized transport newSessionId srv =
     srv\<lparr>transports := AList.update newSessionId transport (transports srv)\<rparr>"

definition updateTransport :: "nat \<Rightarrow> (Transport \<Rightarrow> Transport) \<Rightarrow> IDEServer \<Rightarrow> IDEServer" where
  "updateTransport t f srv =
     (if t < length (transportObjects srv)
      then srv\<lparr>transportObjects := (transportObjects srv)[t := f (transportObjects srv ! t)]\<rparr>
      else srv)"

definition send :: "nat \<Rightarrow> outgoing \<Rightarrow> IDEServer \<Rightarrow> IDEServer" where
  "send t msg srv = srv\<lparr>sent := sent srv @ [(t, msg)]\<rparr>"

text \<open>
  One firing of the keep-alive interval of transport \<open>t\<close>; \<open>delivered\<close> tells whether
  the promise of \<^verbatim>\<open>transport.send\<close> resolves. A cleared interval does not fire. The
  promise is taken to settle before the interval fires again.
\<close>

definition keepAliveFires :: "nat \<Rightarrow> bool \<Rightarrow> IDEServer \<Rightarrow> IDEServer" where
  "keepAliveFires t delivered srv =
     (if t < length (transportObjects srv) \<and> keepAlive (transportObjects srv ! t)
      then (let srv1 = send t Ping srv
            in if delivered then updateTransport t (\<lambda>tr. tr\<lparr>missedPings := 0\<rparr>) srv1
               else (let srv2 = updateTransport t (\<lambda>tr. tr\<lparr>missedPings := missedPings tr + 1\<rparr>) srv1
                     in if missedPings (transportObjects srv2 ! t) \<ge> 3
                        then updateTransport t (\<lambda>tr. tr\<lparr>keepAlive := False\<rparr>) srv2
                        else srv2))
      else srv)"


definition badRequest :: Response where
  "badRequest =
     \<lparr>status = 400,
      responseBody = JsonRpcError (-32000)
        ''Bad Request: No valid session ID provided for non-initialize request.''\<rparr>"

definition internalError :: Response where
  "internalError = \<lparr>status = 500, responseBody = JsonRpcError (-32603) ''Internal server error''\<rparr>"

text \<open>
  The \<^verbatim>\<open>try\<close> block of the POST handler for a transport of the SDK, and for a value
  that is no transport: calling its missing \<^verbatim>\<open>handleRequest\<close> throws a
  \<^verbatim>\<open>TypeError\<close> inside the \<^verbatim>\<open>try\<close>, before anything is sent.
\<close>

definition tryHandleRequest :: "sdk \<Rightarrow> nat \<Rightarrow> Request \<Rightarrow> IDEServer \<Rightarrow> Response \<times> IDEServer" where
  "tryHandleRequest handleRequest t req srv =
     (case handleRequest t req srv of
        (Some res, srv') \<Rightarrow> (res, srv')
      | (None, srv') \<Rightarrow> (internalError, srv'))"

definition postMcp :: "sdk \<Rightarrow> Request \<Rightarrow> IDEServer \<Rightarrow> Response \<times> IDEServer" where
  "postMcp handleRequest req srv =
     (let sessionId' = mcpSessionId req
      in if truthy sessionId' \<and> getProperty (transports srv) (the sessionId') \<noteq> Undefined
         then (case getProperty (transports srv) (the sessionId') of
                 Own t \<Rightarrow> tryHandleRequest handleRequest t req srv
               | _ \<Rightarrow> (internalError, srv))
         else if \<not> truthy sessionId' \<and> isInitializeRequest (body req)
         then (let t = length (transportObjects srv);
                   srv1 = srv\<lparr>transportObjects := transportObjects srv @
                            [\<lparr>sessionId = None, missedPings = 0, keepAlive = True\<rparr>]\<rparr>
               in tryHandleRequest handleRequest t req srv1)
         else (badRequest, srv))"

text \<open>\<^verbatim>\<open>sendIdeContextUpdateNotification\<close>: the context is serialised when it is sent.\<close>

definition sendIdeContextUpdateNotification :: "nat \<Rightarrow> OpenFilesManager \<Rightarrow> IDEServer \<Rightarrow> IDEServer" where
  "sendIdeContextUpdateNotification t ofm srv =
     (let (ideContext, ofm') = state (workspaceTrusted srv) ofm
      in send t (ContextUpdate (observe ofm' ideContext) (isTrusted ideContext))
           (srv\<lparr>openFilesManager := Some ofm'\<rparr>))"

text \<open>
  \<^verbatim>\<open>handleSessionRequest\<close> (GET). For a value that is no transport the call in the
  \<^verbatim>\<open>try\<close> block throws and is answered with 400, and the later call of its missing
  \<^verbatim>\<open>send\<close> throws before the session is marked.
\<close>

definition handleSessionRequest :: "sdk \<Rightarrow> Request \<Rightarrow> IDEServer \<Rightarrow> Response \<times> IDEServer" where
  "handleSessionRequest handleRequest req srv =
     (let sessionId' = mcpSessionId req
      in if \<not> truthy sessionId' \<or> getProperty (transports srv) (the sessionId') = Undefined
         then (\<lparr>status = 400, responseBody = Text ''Invalid or missing session ID''\<rparr>, srv)
         else (case getProperty (transports srv) (the sessionId') of
                 Own t \<Rightarrow>
                   (let (res, srv1) =
                          (case handleRequest t req srv of
                             (Some res, srv') \<Rightarrow> (res, srv')
                           | (None, srv') \<Rightarrow> (\<lparr>status = 400, responseBody = Text ''Bad Request''\<rparr>, srv'))
                    in case openFilesManager srv1 of
                         Some ofm \<Rightarrow>
                           if the sessionId' \<notin> set (sessionsWithInitialNotification srv1)
                           then (res, (sendIdeContextUpdateNotification t ofm srv1)
                                   \<lparr>sessionsWithInitialNotification :=
                                      sessionsWithInitialNotification srv1 @ [the sessionId']\<rparr>)
                           else (res, srv1)
                       | None \<Rightarrow> (res, srv1))
               | _ \<Rightarrow> (\<lparr>status = 400, responseBody = Text ''Bad Request''\<rparr>, srv)))"

text \<open>
  The status Express's own error handler answers with for an error of status \<open>st\<close>
  that the application's error handler has passed on.
\<close>

definition errorStatus :: "nat \<Rightarrow> nat" where
  "errorStatus st = (if 400 \<le> st \<and> st < 600 then st else 500)"

text \<open>
  The application, in the order of its \<^verbatim>\<open>app.use\<close> calls. An error of
  \<^verbatim>\<open>express.json\<close> skips every later middleware and route; the application's error
  handler passes it on, being no \<^verbatim>\<open>CORSError\<close>, and Express answers with its status.
  The \<^verbatim>\<open>cors\<close> middleware asks the origin callback, whose \<^verbatim>\<open>CORSError\<close> for a
  present origin the error handler answers with 403; for an allowed request it answers
  an \<^verbatim>\<open>OPTIONS\<close> request itself, with status 204 and no body, and passes any other
  request on. Then come the host check, the authentication and the routes; a request no
  route matches gets the 404 page of Express.
\<close>

definition app :: "sdk \<Rightarrow> Request \<Rightarrow> IDEServer \<Rightarrow> Response \<times> IDEServer" where
  "app handleRequest req srv =
     (case bodyRejected req of
        Some st \<Rightarrow> (\<lparr>status = errorStatus st, responseBody = ExpressPage\<rparr>, srv)
      | None \<Rightarrow>
          if \<not> corsAllows req
          then (\<lparr>status = 403, responseBody = JsonError ''Request denied by CORS policy.''\<rparr>, srv)
          else if route req = Options
          then (\<lparr>status = 204, responseBody = Empty\<rparr>, srv)
          else if \<not> hostAllowed srv req
          then (\<lparr>status = 403, responseBody = JsonError ''Invalid Host header''\<rparr>, srv)
          else (case authenticate srv req of
                  Some res \<Rightarrow> (res, srv)
                | None \<Rightarrow>
                    (case route req of
                       PostMcp \<Rightarrow> postMcp handleRequest req srv
                     | GetMcp \<Rightarrow> handleSessionRequest handleRequest req srv
                     | _ \<Rightarrow> (\<lparr>status = 404, responseBody = ExpressPage\<rparr>, srv))))"

text \<open>The tools of \<^verbatim>\<open>createMcpServer\<close> and the broadcast of the diff manager's notifications.\<close>

definition broadcast :: "outgoing \<Rightarrow> IDEServer \<Rightarrow> IDEServer" where
  "broadcast msg srv = srv\<lparr>sent := sent srv @ map (\<lambda>entry. (snd entry, msg)) (transports srv)\<rparr>"

definition openDiffTool :: "string \<Rightarrow> string \<Rightarrow> string \<Rightarrow> bool \<Rightarrow> IDEServer \<Rightarrow> IDEServer" where
  "openDiffTool filePath proposed rand exists srv =
     srv\<lparr>diffManager := showDiff filePath proposed rand exists (diffManager srv)\<rparr>"

definition closeDiffTool :: "string \<Rightarrow> bool \<Rightarrow> IDEServer \<Rightarrow> string option \<times> IDEServer" where
  "closeDiffTool filePath suppressNotification srv =
     (case closeDiff filePath suppressNotification (diffManager srv) of
        (result, notifications, dm) \<Rightarrow>
          (result, fold (\<lambda>n. broadcast (DiffNotification n)) notifications (srv\<lparr>diffManager := dm\<rparr>)))"

text \<open>The server once \<^verbatim>\<open>start\<close> has resolved, with the token and the port it got.\<close>

definition start :: "string \<Rightarrow> nat \<Rightarrow> DiffManager \<Rightarrow> OpenFilesManager \<Rightarrow> bool \<Rightarrow> IDEServer" where
  "start uuid boundPort dm ofm trusted =
     \<lparr>port = Some boundPort, authToken = Some uuid, transportObjects = [], transports = [],
      sessionsWithInitialNotification = [], diffManager = dm, openFilesManager = Some ofm,
      workspaceTrusted = trusted, sent = []\<rparr>"

section \<open>Vocabulary of the properties\<close>

text \<open>
  The paths of the tracked list in list order; the path an event activates, if it
  activates one; and the order the list is expected in after a series of activations:
  each path once, at the place of its last activation, the latest first.
\<close>

definition paths :: "OpenFilesManager \<Rightarrow> string list" where
  "paths m = map path (tracked m)"

fun activatedPath :: "event \<Rightarrow> string option" where
  "activatedPath (ActiveEditorChanged (Some editor) now) =
     (if isFileUri (document_uri editor) then Some (fsPath (document_uri editor)) else None)"
| "activatedPath _ = None"

fun isActivation :: "event \<Rightarrow> bool" where
  "isActivation (ActiveEditorChanged editor now) = True"
| "isActivation _ = False"

definition mostRecentFirst :: "string list \<Rightarrow> string list" where
  "mostRecentFirst ps = rev (remdups ps)"

text \<open>
  Invariants of the manager's store: every reference of the list is older than
  \<open>nextRef\<close>, no reference occurs twice, and only the first entry of the list may be
  active or hold a cursor or a selected text (\<open>cleared\<close> says an entry has none of
  the three).
\<close>

definition fresh :: "OpenFilesManager \<Rightarrow> bool" where
  "fresh m \<longleftrightarrow> list_all (\<lambda>r. r < nextRef m) (openFiles m)"

definition cleared :: "File \<Rightarrow> bool" where
  "cleared f \<longleftrightarrow> \<not> isActive f \<and> cursor f = None \<and> selectedText f = None"

definition activeInv :: "OpenFilesManager \<Rightarrow> bool" where
  "activeInv m \<longleftrightarrow>
     (case openFiles m of
        [] \<Rightarrow> True
      | r # rs \<Rightarrow> (isActive (objects m r) \<or> cleared (objects m r)) \<and>
                  list_all (\<lambda>r'. cleared (objects m r')) rs)"

definition allCleared :: "OpenFilesManager \<Rightarrow> bool" where
  "allCleared m \<longleftrightarrow> list_all cleared (tracked m)"

definition distinctRefs :: "OpenFilesManager \<Rightarrow> bool" where
  "distinctRefs m \<longleftrightarrow> distinct (openFiles m)"

definition wellFormed :: "OpenFilesManager \<Rightarrow> bool" where
  "wellFormed m \<longleftrightarrow> fresh m \<and> distinctRefs m \<and> activeInv m"

text \<open>Values for the examples: an editor on a file, and a series of activations at time 7.\<close>

definition fileEditor :: "string \<Rightarrow> nat \<Rightarrow> nat \<Rightarrow> string \<Rightarrow> TextEditor" where
  "fileEditor p l c s =
     \<lparr>document_uri = \<lparr>scheme = ''file'', fsPath = p, query = []\<rparr>,
      selection_active = Some \<lparr>line = l, character = c\<rparr>, selection_text = s\<rparr>"

definition activationsOf :: "string list \<Rightarrow> event list" where
  "activationsOf ps = map (\<lambda>p. ActiveEditorChanged (Some (fileEditor p 0 0 [])) 7) ps"

text \<open>
  No object of the store has the empty string as selected text; the events that only
  remove entries; and two states of which the later one has every object of the earlier
  one with the timestamp it had.
\<close>

definition noEmptySelection :: "OpenFilesManager \<Rightarrow> bool" where
  "noEmptySelection m \<longleftrightarrow> (\<forall>r. selectedText (objects m r) \<noteq> Some [])"

fun isRemoval :: "event \<Rightarrow> bool" where
  "isRemoval (DocumentClosed uri) = True"
| "isRemoval (FilesDeleted uris) = True"
| "isRemoval _ = False"

definition sameStamps :: "OpenFilesManager \<Rightarrow> OpenFilesManager \<Rightarrow> bool" where
  "sameStamps m m' \<longleftrightarrow>
     nextRef m \<le> nextRef m' \<and> (\<forall>r<nextRef m. timestamp (objects m' r) = timestamp (objects m r))"

text \<open>Two stores that hold the same elements in every array but the manager's own.\<close>

definition otherArrays :: "OpenFilesManager \<Rightarrow> OpenFilesManager \<Rightarrow> bool" where
  "otherArrays m m' \<longleftrightarrow>
     nextArray m' = nextArray m \<and> (\<forall>a. a \<noteq> openFilesRef \<longrightarrow> arrays m' a = arrays m a)"

text \<open>
  The uses of the manager, the editor's events and the reads of its state; the uses that
  write no object (close, delete and read); and two stores of which the later one has
  every array of the earlier one, but the manager's own, with the elements it had.
\<close>

datatype use = Handled event | StateRead bool

fun perform :: "use \<Rightarrow> OpenFilesManager \<Rightarrow> OpenFilesManager" where
  "perform (Handled e) m = handleEvent e m"
| "perform (StateRead trusted) m = snd (state trusted m)"

fun performAll :: "use list \<Rightarrow> OpenFilesManager \<Rightarrow> OpenFilesManager" where
  "performAll [] m = m"
| "performAll (u # us) m = performAll us (perform u m)"

fun writesNoObject :: "use \<Rightarrow> bool" where
  "writesNoObject (Handled e) = isRemoval e"
| "writesNoObject (StateRead trusted) = True"

definition arraysKept :: "OpenFilesManager \<Rightarrow> OpenFilesManager \<Rightarrow> bool" where
  "arraysKept m m' \<longleftrightarrow>
     nextArray m \<le> nextArray m' \<and>
     (\<forall>a. a \<noteq> openFilesRef \<and> a < nextArray m \<longrightarrow> arrays m' a = arrays m a)"

text \<open>A selected text of 16385 code units, one more than the limit.\<close>

definition longText :: string where
  "longText = replicate 16385 (CHR ''x'')"

text \<open>The text the right-hand document of a diff has when it is read back.\<close>

definition currentText :: "Uri \<Rightarrow> DiffManager \<Rightarrow> string" where
  "currentText uri dm = fst (openTextDocument uri dm)"

text \<open>The header the authentication asks for: \<^verbatim>\<open>Bearer\<close>, one space, the server's token.\<close>

definition validAuthorization :: "IDEServer \<Rightarrow> Request \<Rightarrow> bool" where
  "validAuthorization srv req \<longleftrightarrow>
     (case authToken srv of
        None \<Rightarrow> False
      | Some token \<Rightarrow> authorization req = Some (''Bearer '' @ token))"

text \<open>
  A behaviour of the SDK for the examples: an initialize request gives the transport the
  session id \<open>uuid\<close> and runs \<^verbatim>\<open>onsessioninitialized\<close>, a tool call runs the tool.
\<close>

definition exampleSdk :: "string \<Rightarrow> string \<Rightarrow> bool \<Rightarrow> sdk" where
  "exampleSdk uuid rand exists t req srv =
     (case body req of
        Initialize \<Rightarrow>
          (Some \<lparr>status = 200, responseBody = Payload ''initialized''\<rparr>,
           onsessioninitialized t uuid (updateTransport t (\<lambda>tr. tr\<lparr>sessionId := Some uuid\<rparr>) srv))
      | CallTool (OpenDiff filePath proposed) \<Rightarrow>
          (Some \<lparr>status = 200, responseBody = Payload []\<rparr>,
           openDiffTool filePath proposed rand exists srv)
      | CallTool (CloseDiff filePath suppressNotification) \<Rightarrow>
          (case closeDiffTool filePath suppressNotification srv of
             (result, srv') \<Rightarrow>
               (Some \<lparr>status = 200,
                      responseBody = Payload (case result of None \<Rightarrow> [] | Some c \<Rightarrow> c)\<rparr>, srv'))
      | OtherMessage \<Rightarrow> (Some \<lparr>status = 202, responseBody = Payload []\<rparr>, srv))"

text \<open>
  A request from the local client to port 4000 with a body the parser accepts, the
  server started with token \<^verbatim>\<open>secret\<close> on that port, and that server after an
  initialize request has set up the session \<^verbatim>\<open>s1\<close>.
\<close>

definition exampleRequest :: "route \<Rightarrow> string option \<Rightarrow> string option \<Rightarrow> message \<Rightarrow> Request" where
  "exampleRequest r auth sid b =
     \<lparr>route = r, bodyRejected = None, origin = None, host = Some ''localhost:4000'',
      authorization = auth, mcpSessionId = sid, body = b\<rparr>"

definition startedServer :: IDEServer where
  "startedServer = start ''secret'' 4000 emptyDiffManager emptyManager True"

definition establishedServer :: IDEServer where
  "establishedServer =
     snd (app (exampleSdk ''s1'' ''0.5'' True)
            (exampleRequest PostMcp (Some ''Bearer secret'') None Initialize) startedServer)"



section \<open>The open-files manager\<close>

text \<open>The manager's array read and written through the store.\<close>

lemma openFiles_setOpenFiles [simp]: "openFiles (setOpenFiles xs m) = xs"
  by (simp add: openFiles_def setOpenFiles_def)

lemma objects_setOpenFiles [simp]: "objects (setOpenFiles xs m) = objects m"
  by (simp add: setOpenFiles_def)

lemma nextRef_setOpenFiles [simp]: "nextRef (setOpenFiles xs m) = nextRef m"
  by (simp add: setOpenFiles_def)

lemma nextArray_setOpenFiles [simp]: "nextArray (setOpenFiles xs m) = nextArray m"
  by (simp add: setOpenFiles_def)

lemma openFiles_objects_update [simp]: "openFiles (m\<lparr>objects := f\<rparr>) = openFiles m"
  by (simp add: openFiles_def)

lemma openFiles_nextRef_update [simp]: "openFiles (m\<lparr>nextRef := n\<rparr>) = openFiles m"
  by (simp add: openFiles_def)

lemma openFiles_emptyManager [simp]: "openFiles emptyManager = []"
  by (simp add: openFiles_def emptyManager_def)

lemma map_splice_findIndex:
  "map f (case findIndex (\<lambda>r. f r = p) xs of None \<Rightarrow> xs | Some i \<Rightarrow> splice1 i xs) = remove1 p (map f xs)"
proof (induction xs)
  case Nil then show ?case by simp
next
  case (Cons x xs)
  then show ?case by (auto simp: splice1_def split: option.splits)
qed

lemma set_splice1: "set (splice1 i xs) \<subseteq> set xs"
  unfolding splice1_def by (auto dest: in_set_takeD in_set_dropD)

lemma paths_removePath: "paths (removePath p m) = remove1 p (paths m)"
  using map_splice_findIndex[where f="\<lambda>r. path (objects m r)" and p=p and xs="openFiles m"]
  by (auto simp: paths_def tracked_def removePath_def comp_def split: option.splits)

lemma fresh_removePath: "fresh m \<Longrightarrow> fresh (removePath p m)"
  using set_splice1 by (fastforce simp: fresh_def removePath_def list_all_iff split: option.splits)

lemma paths_deactivatePrevious: "paths (deactivatePrevious m) = paths m"
  by (auto simp: paths_def tracked_def deactivatePrevious_def setObject_def split: option.splits)

lemma fresh_deactivatePrevious: "fresh (deactivatePrevious m) = fresh m"
  by (auto simp: fresh_def deactivatePrevious_def setObject_def split: option.splits)

lemma paths_unshiftActive: "fresh m \<Longrightarrow> paths (unshiftActive p now m) = p # paths m"
  by (auto simp: paths_def tracked_def unshiftActive_def fresh_def list_all_iff)

lemma fresh_unshiftActive: "fresh m \<Longrightarrow> fresh (unshiftActive p now m)"
  by (auto simp: unshiftActive_def fresh_def list_all_iff)

lemma paths_enforceMax: "paths (enforceMax m) = (if length (paths m) > MAX_FILES then butlast (paths m) else paths m)"
  by (auto simp: paths_def tracked_def enforceMax_def map_butlast)

lemma fresh_enforceMax: "fresh m \<Longrightarrow> fresh (enforceMax m)"
  by (auto simp: enforceMax_def fresh_def list_all_iff dest: in_set_butlastD)

lemma paths_updateActiveContext: "paths (updateActiveContext e m) = paths m"
  by (auto simp: paths_def tracked_def updateActiveContext_def setObject_def split: option.splits)

lemma fresh_updateActiveContext: "fresh (updateActiveContext e m) = fresh m"
  by (auto simp: fresh_def updateActiveContext_def setObject_def split: option.splits)

lemma paths_addOrMoveToFront:
  "fresh m \<Longrightarrow> paths (addOrMoveToFront now e m) =
     (let l = fsPath (document_uri e) # remove1 (fsPath (document_uri e)) (paths m)
      in if length l > MAX_FILES then butlast l else l)"
  by (simp add: addOrMoveToFront_def paths_updateActiveContext paths_enforceMax paths_unshiftActive
      fresh_removePath fresh_deactivatePrevious paths_removePath paths_deactivatePrevious Let_def)

lemma fresh_addOrMoveToFront: "fresh m \<Longrightarrow> fresh (addOrMoveToFront now e m)"
  by (simp add: addOrMoveToFront_def fresh_updateActiveContext fresh_enforceMax fresh_unshiftActive
      fresh_removePath fresh_deactivatePrevious)

lemma handleEvents_append: "handleEvents (es @ fs) m = handleEvents fs (handleEvents es m)"
  by (induction es arbitrary: m) auto

lemma remdups_snoc: "remdups (ps @ [p]) = removeAll p (remdups ps) @ [p]"
  by (induction ps) auto

lemma mostRecentFirst_snoc: "mostRecentFirst (ps @ [p]) = p # removeAll p (mostRecentFirst ps)"
  by (simp add: mostRecentFirst_def remdups_snoc removeAll_filter_not_eq rev_filter)

lemma distinct_mostRecentFirst: "distinct (mostRecentFirst ps)"
  by (simp add: mostRecentFirst_def)

lemma take_removeAll_take:
  "distinct xs \<Longrightarrow> take k (removeAll p (take (Suc k) xs)) = take k (removeAll p xs)"
proof (induction xs arbitrary: k)
  case Nil then show ?case by simp
next
  case (Cons x xs)
  show ?case
  proof (cases "x = p")
    case True
    with Cons.prems have "p \<notin> set xs" by simp
    then have "p \<notin> set (take k xs)" by (auto dest: in_set_takeD)
    with True \<open>p \<notin> set xs\<close> show ?thesis by simp
  next
    case False
    with Cons show ?thesis by (cases k) auto
  qed
qed

lemma activate_take:
  assumes "distinct xs" "0 < n"
  shows "(let l = p # remove1 p (take n xs) in if length l > n then butlast l else l)
           = take n (p # removeAll p xs)"
proof -
  obtain k where n: "n = Suc k" using assms(2) by (cases n) auto
  have d: "distinct (take n xs)" using assms(1) by simp
  have r: "remove1 p (take n xs) = removeAll p (take n xs)"
    using d by (simp add: distinct_remove1_removeAll)
  let ?l = "p # removeAll p (take n xs)"
  have len: "length ?l \<le> Suc n" 
    by (simp add: le_trans[OF length_removeAll_less_eq])
  have "(if length ?l > n then butlast ?l else ?l) = take n ?l"
  proof (cases "length ?l > n")
    case True
    with len have "length ?l - 1 = n" by simp
    with True show ?thesis using butlast_conv_take[of ?l] by simp
  next
    case False
    then show ?thesis by simp
  qed
  also have "\<dots> = p # take k (removeAll p (take (Suc k) xs))" by (simp add: n)
  also have "\<dots> = p # take k (removeAll p xs)" using take_removeAll_take[OF assms(1)] by simp
  also have "\<dots> = take n (p # removeAll p xs)" by (simp add: n)
  finally show ?thesis by (simp add: r Let_def)
qed

lemma activations_invariant:
  "list_all isActivation es \<Longrightarrow>
     fresh (handleEvents es emptyManager) \<and>
     paths (handleEvents es emptyManager) = take MAX_FILES (mostRecentFirst (List.map_filter activatedPath es))"
proof (induction es rule: rev_induct)
  case Nil
  show ?case by (simp add: fresh_def paths_def tracked_def mostRecentFirst_def map_filter_simps)
next
  case (snoc e es)
  let ?m = "handleEvents es emptyManager"
  let ?ps = "List.map_filter activatedPath es"
  from snoc have IH: "fresh ?m" "paths ?m = take MAX_FILES (mostRecentFirst ?ps)" by auto
  from snoc.prems obtain editor now where e: "e = ActiveEditorChanged editor now"
    by (cases e) auto
  show ?case
  proof (cases "activatedPath e")
    case None
    then have "handleEvent e ?m = ?m" using e by (cases editor) (auto split: if_splits)
    with None IH show ?thesis by (simp add: handleEvents_append map_filter_def)
  next
    case (Some p)
    then obtain ed where ed: "editor = Some ed" "isFileUri (document_uri ed)" "p = fsPath (document_uri ed)"
      using e by (cases editor) (auto split: if_splits)
    have step: "handleEvent e ?m = addOrMoveToFront now ed ?m" using e ed by simp
    have "paths (handleEvent e ?m) = take MAX_FILES (p # removeAll p (mostRecentFirst ?ps))"
      unfolding step paths_addOrMoveToFront[OF IH(1)] IH(2) ed(3)[symmetric]
      by (rule activate_take) (simp_all add: distinct_mostRecentFirst MAX_FILES_def)
    moreover have "List.map_filter activatedPath (es @ [e]) = ?ps @ [p]"
      using Some by (simp add: map_filter_def)
    ultimately show ?thesis
      using IH(1) by (simp add: handleEvents_append step fresh_addOrMoveToFront mostRecentFirst_snoc)
  qed
qed

lemma find_inactive: "list_all (\<lambda>r. \<not> P r) rs \<Longrightarrow> find P rs = None"
  by (induction rs) auto

lemma deactivatePrevious_allCleared:
  assumes "activeInv m" shows "allCleared (deactivatePrevious m)"
proof (cases "openFiles m")
  case Nil
  then show ?thesis by (simp add: allCleared_def tracked_def deactivatePrevious_def)
next
  case (Cons r rs)
  with assms have hd: "isActive (objects m r) \<or> cleared (objects m r)"
    and tl: "list_all (\<lambda>r'. cleared (objects m r')) rs"
    by (auto simp: activeInv_def)
  show ?thesis
  proof (cases "isActive (objects m r)")
    case True
    with Cons have "deactivatePrevious m =
      setObject r ((objects m r)\<lparr>isActive := False, cursor := None, selectedText := None\<rparr>) m"
      by (simp add: deactivatePrevious_def)
    with tl Cons show ?thesis
      by (auto simp: allCleared_def tracked_def setObject_def cleared_def list_all_iff)
  next
    case False
    from tl have "list_all (\<lambda>r'. \<not> isActive (objects m r')) rs"
      by (auto simp: list_all_iff cleared_def)
    from find_inactive[OF this] False Cons have "deactivatePrevious m = m"
      by (simp add: deactivatePrevious_def)
    with hd tl False Cons show ?thesis
      by (auto simp: allCleared_def tracked_def list_all_iff)
  qed
qed

lemma tracked_unshiftActive:
  "fresh m \<Longrightarrow> tracked (unshiftActive p now m) =
     \<lparr>path = p, timestamp = now, isActive = True, cursor = None, selectedText = None\<rparr> # tracked m"
  by (auto simp: tracked_def unshiftActive_def fresh_def list_all_iff)

lemma distinct_splice1: "distinct xs \<Longrightarrow> distinct (splice1 i xs)"
proof -
  assume d: "distinct xs"
  have "xs = take i xs @ drop i xs" by simp
  with d have "distinct (take i xs @ drop i xs)" by simp
  then have "set (take i xs) \<inter> set (drop i xs) = {}" by (simp only: distinct_append)
  moreover have "set (drop (Suc i) xs) \<subseteq> set (drop i xs)" by (rule set_drop_subset_set_drop) simp
  ultimately have "set (take i xs) \<inter> set (drop (Suc i) xs) = {}" by blast
  with d show ?thesis by (simp add: splice1_def)
qed

lemma MAX_FILES_pos: "0 < MAX_FILES"
  by (simp add: MAX_FILES_def)

lemma objects_enforceMax: "objects (enforceMax m) = objects m"
  by (simp add: enforceMax_def)

lemma distinctRefs_steps:
  "distinctRefs (deactivatePrevious m) = distinctRefs m"
  "distinctRefs m \<Longrightarrow> distinctRefs (removePath p m)"
  "distinctRefs m \<Longrightarrow> fresh m \<Longrightarrow> distinctRefs (unshiftActive p now m)"
  "distinctRefs m \<Longrightarrow> distinctRefs (enforceMax m)"
  "distinctRefs (updateActiveContext e m) = distinctRefs m"
      apply (auto simp: distinctRefs_def deactivatePrevious_def setObject_def removePath_def
      unshiftActive_def enforceMax_def updateActiveContext_def fresh_def list_all_iff distinct_splice1 distinct_butlast
      split: option.splits)
  done

text \<open>The result of an activation, as a reader of the list sees it.\<close>

lemma tracked_updateActiveContext_front:
  assumes "openFiles m = r # rs" "r \<notin> set rs" "path (objects m r) = fsPath (document_uri e)" "isActive (objects m r)"
  shows "tracked (updateActiveContext e m) =
     (objects m r)\<lparr>cursor := cursorOf e, selectedText := truncateSelection (selection_text e)\<rparr>
       # map (objects m) rs"
  using assms by (auto simp: tracked_def updateActiveContext_def setObject_def)

lemma tracked_addOrMoveToFront:
  assumes "fresh m" "distinctRefs m"
  shows "\<exists>rest. tracked (addOrMoveToFront now e m) =
     \<lparr>path = fsPath (document_uri e), timestamp = now, isActive = True, cursor = cursorOf e,
       selectedText = truncateSelection (selection_text e)\<rparr> # rest
     \<and> set rest \<subseteq> set (tracked (deactivatePrevious m))"
proof -
  let ?p = "fsPath (document_uri e)"
  let ?m1 = "deactivatePrevious m"
  let ?m2 = "removePath ?p ?m1"
  let ?m3 = "unshiftActive ?p now ?m2"
  let ?m4 = "enforceMax ?m3"
  let ?f = "\<lparr>path = ?p, timestamp = now, isActive = True, cursor = None, selectedText = None\<rparr>"
  have f2: "fresh ?m2" using assms by (simp add: fresh_removePath fresh_deactivatePrevious)
  have d2: "distinctRefs ?m2" using assms by (simp add: distinctRefs_steps)
  have sub2: "set (tracked ?m2) \<subseteq> set (tracked ?m1)"
    using set_splice1 by (fastforce simp: tracked_def removePath_def split: option.splits)
  have t3: "tracked ?m3 = ?f # tracked ?m2" using f2 by (rule tracked_unshiftActive)
  have d4: "distinctRefs ?m4" using d2 f2 by (simp add: distinctRefs_steps)
  have o3: "openFiles ?m3 = nextRef ?m2 # openFiles ?m2" "objects ?m3 (nextRef ?m2) = ?f"
    by (simp_all add: unshiftActive_def)
  have o4: "openFiles ?m4 = nextRef ?m2 # (if length (openFiles ?m3) > MAX_FILES then butlast (openFiles ?m2) else openFiles ?m2)"
    "objects ?m4 = objects ?m3"
    using o3 MAX_FILES_pos by (auto simp: enforceMax_def)
  let ?rs = "if length (openFiles ?m3) > MAX_FILES then butlast (openFiles ?m2) else openFiles ?m2"
  have notin: "nextRef ?m2 \<notin> set ?rs" using d4 o4 by (auto simp: distinctRefs_def)
  have sub4: "set ?rs \<subseteq> set (openFiles ?m2)" by (auto dest: in_set_butlastD)
  have "tracked (updateActiveContext e ?m4) =
     (objects ?m4 (nextRef ?m2))\<lparr>cursor := cursorOf e, selectedText := truncateSelection (selection_text e)\<rparr>
       # map (objects ?m4) ?rs"
    by (rule tracked_updateActiveContext_front[OF o4(1) notin]) (simp_all add: o4 o3)
  moreover have "map (objects ?m4) ?rs = map (objects ?m2) ?rs"
    using notin sub4 by (auto simp: objects_enforceMax unshiftActive_def)
  moreover have "set (map (objects ?m2) ?rs) \<subseteq> set (tracked ?m2)"
    using sub4 by (auto simp: tracked_def)
  ultimately show ?thesis using sub2 by (auto simp: addOrMoveToFront_def o4 o3)
qed

lemma activeInv_tracked:
  "activeInv m \<longleftrightarrow>
     (case tracked m of
        [] \<Rightarrow> True
      | f # fs \<Rightarrow> (isActive f \<or> cleared f) \<and> list_all cleared fs)"
  by (auto simp: activeInv_def tracked_def list_all_iff split: list.splits)

lemma fresh_rename: "fresh (rename a b m) = fresh m"
  by (auto simp: fresh_def rename_def setObject_def Let_def split: option.splits)

lemma distinctRefs_rename: "distinctRefs (rename a b m) = distinctRefs m"
  by (auto simp: distinctRefs_def rename_def setObject_def Let_def split: option.splits)

lemma distinctRefs_addOrMoveToFront:
  "fresh m \<Longrightarrow> distinctRefs m \<Longrightarrow> distinctRefs (addOrMoveToFront now e m)"
  by (simp add: addOrMoveToFront_def distinctRefs_steps fresh_removePath fresh_deactivatePrevious)

lemma activeInv_addOrMoveToFront:
  assumes "fresh m" "distinctRefs m" "activeInv m"
  shows "activeInv (addOrMoveToFront now e m)"
proof -
  from tracked_addOrMoveToFront[OF assms(1,2), of now e] obtain rest where
    t: "tracked (addOrMoveToFront now e m) =
     \<lparr>path = fsPath (document_uri e), timestamp = now, isActive = True, cursor = cursorOf e,
       selectedText = truncateSelection (selection_text e)\<rparr> # rest"
    and sub: "set rest \<subseteq> set (tracked (deactivatePrevious m))" by blast
  from deactivatePrevious_allCleared[OF assms(3)] sub have "list_all cleared rest"
    by (auto simp: allCleared_def list_all_iff)
  with t show ?thesis by (simp add: activeInv_tracked)
qed

lemma activeInv_removePath:
  assumes "activeInv m" shows "activeInv (removePath p m)"
proof (cases "findIndex (\<lambda>r. path (objects m r) = p) (openFiles m)")
  case None
  with assms show ?thesis by (simp add: removePath_def)
next
  case (Some i)
  then have o: "openFiles (removePath p m) = splice1 i (openFiles m)" "objects (removePath p m) = objects m"
    by (simp_all add: removePath_def)
  show ?thesis
  proof (cases "openFiles m")
    case Nil
    with o show ?thesis by (simp add: activeInv_def splice1_def)
  next
    case (Cons r rs)
    with assms have hd: "isActive (objects m r) \<or> cleared (objects m r)"
      and tl: "list_all (\<lambda>r'. cleared (objects m r')) rs"
      by (auto simp: activeInv_def)
    show ?thesis
    proof (cases i)
      case 0
      with Cons o have "openFiles (removePath p m) = rs" by (simp add: splice1_def)
      with tl o show ?thesis by (auto simp: activeInv_def list_all_iff split: list.splits)
    next
      case (Suc k)
      with Cons o have o': "openFiles (removePath p m) = r # splice1 k rs" by (simp add: splice1_def)
      from tl set_splice1[of k rs] have "list_all (\<lambda>r'. cleared (objects m r')) (splice1 k rs)"
        by (auto simp: list_all_iff)
      with hd show ?thesis by (simp add: activeInv_def o' o(2))
    qed
  qed
qed

lemma activeInv_rename: "activeInv m \<Longrightarrow> activeInv (rename a b m)"
  by (auto simp: activeInv_def rename_def setObject_def Let_def cleared_def list_all_iff
      split: option.splits list.splits)

lemma activeInv_updateActiveContext:
  assumes "activeInv m" shows "activeInv (updateActiveContext e m)"
proof (cases "find (\<lambda>r. path (objects m r) = fsPath (document_uri e)) (openFiles m)")
  case None
  with assms show ?thesis by (simp add: updateActiveContext_def)
next
  case (Some r)
  show ?thesis
  proof (cases "isActive (objects m r)")
    case False
    with Some assms show ?thesis by (simp add: updateActiveContext_def)
  next
    case True
    with Some have u: "updateActiveContext e m = setObject r
                 ((objects m r)\<lparr>cursor := cursorOf e,
                                selectedText := truncateSelection (selection_text e)\<rparr>) m"
      by (simp add: updateActiveContext_def)
    from assms True show ?thesis unfolding u
      by (auto simp: activeInv_def setObject_def cleared_def list_all_iff split: list.splits)
  qed
qed

lemma wellFormed_empty: "wellFormed emptyManager"
  by (simp add: wellFormed_def fresh_def distinctRefs_def activeInv_def)

lemma wellFormed_remove: "wellFormed m \<Longrightarrow> wellFormed (remove u m)"
  by (simp add: wellFormed_def remove_def fresh_removePath distinctRefs_steps activeInv_removePath)

lemma wellFormed_rename: "wellFormed m \<Longrightarrow> wellFormed (rename a b m)"
  by (simp add: wellFormed_def fresh_rename distinctRefs_rename activeInv_rename)

lemma wellFormed_updateActiveContext: "wellFormed m \<Longrightarrow> wellFormed (updateActiveContext e m)"
  by (simp add: wellFormed_def fresh_updateActiveContext distinctRefs_steps activeInv_updateActiveContext)

lemma wellFormed_addOrMoveToFront: "wellFormed m \<Longrightarrow> wellFormed (addOrMoveToFront now e m)"
  by (simp add: wellFormed_def fresh_addOrMoveToFront distinctRefs_addOrMoveToFront activeInv_addOrMoveToFront)

lemma wellFormed_deleteFiles: "wellFormed m \<Longrightarrow> wellFormed (deleteFiles uris m)"
  by (induction uris arbitrary: m) (auto simp: wellFormed_remove)

lemma wellFormed_renameFiles: "wellFormed m \<Longrightarrow> wellFormed (renameFiles files m)"
  by (induction files arbitrary: m) (auto simp: wellFormed_remove wellFormed_rename)

lemma wellFormed_handleEvent: "wellFormed m \<Longrightarrow> wellFormed (handleEvent e m)"
  by (induction e m rule: handleEvent.induct)
     (auto simp: wellFormed_remove wellFormed_updateActiveContext wellFormed_addOrMoveToFront
        wellFormed_deleteFiles wellFormed_renameFiles)

lemma wellFormed_handleEvents: "wellFormed m \<Longrightarrow> wellFormed (handleEvents es m)"
  by (induction es arbitrary: m) (auto simp: wellFormed_handleEvent)

lemma activeInv_at_most_one:
  assumes "activeInv m"
  shows "length (filter isActive (tracked m)) \<le> 1"
proof (cases "tracked m")
  case Nil then show ?thesis by simp
next
  case (Cons f fs)
  with assms have "list_all cleared fs" by (simp add: activeInv_tracked)
  then have "filter isActive fs = []" by (auto simp: list_all_iff cleared_def filter_empty_conv)
  with Cons show ?thesis by simp
qed

lemma activeInv_inactive_cleared:
  "activeInv m \<Longrightarrow> list_all (\<lambda>f. isActive f \<or> cleared f) (tracked m)"
  by (auto simp: activeInv_tracked list_all_iff split: list.splits)

lemma butlast_if_take:
  assumes "length l \<le> Suc n"
  shows "(if n < length l then butlast l else l) = take n l"
proof (cases "n < length l")
  case True
  with assms have "length l - 1 = n" by simp
  with True show ?thesis by (simp add: butlast_conv_take)
next
  case False
  then show ?thesis by simp
qed

text \<open>
  Claim C3. After any sequence of activation events on the empty manager the tracked list
  has at most 10 entries, its paths are pairwise different, and they are the paths of
  the file activations, each once, the most recent first, cut after \<open>MAX_FILES\<close>. One more activation of a file puts its path in front, drops the path's old place
  and, if that makes eleven entries, the last one.
\<close>

theorem tracked_list_mru_bounded:
  assumes "list_all isActivation es"
  shows "length (tracked (handleEvents es emptyManager)) \<le> 10
     \<and> paths (handleEvents es emptyManager) =
         take MAX_FILES (mostRecentFirst (List.map_filter activatedPath es))
     \<and> distinct (paths (handleEvents es emptyManager))
     \<and> (isFileUri (document_uri e) \<longrightarrow>
          paths (handleEvent (ActiveEditorChanged (Some e) now) (handleEvents es emptyManager)) =
            take MAX_FILES (fsPath (document_uri e) #
              remove1 (fsPath (document_uri e)) (paths (handleEvents es emptyManager))))"
proof -
  let ?m = "handleEvents es emptyManager"
  from activations_invariant[OF assms] have fr: "fresh ?m"
    and ps: "paths ?m = take MAX_FILES (mostRecentFirst (List.map_filter activatedPath es))"
    by auto
  have len: "length (paths ?m) \<le> MAX_FILES" by (simp add: ps)
  then have l: "length (tracked ?m) \<le> 10" by (simp add: paths_def MAX_FILES_def)
  have d: "distinct (paths ?m)" by (simp add: ps distinct_mostRecentFirst)
  have step: "paths (addOrMoveToFront now e ?m) =
      take MAX_FILES (fsPath (document_uri e) # remove1 (fsPath (document_uri e)) (paths ?m))"
  proof -
    let ?l = "fsPath (document_uri e) # remove1 (fsPath (document_uri e)) (paths ?m)"
    have "length ?l \<le> Suc MAX_FILES"
      using len by (auto simp: length_remove1)
    then have "(if length ?l > MAX_FILES then butlast ?l else ?l) = take MAX_FILES ?l"
      by (rule butlast_if_take)
    then show ?thesis by (simp add: paths_addOrMoveToFront[OF fr] Let_def)
  qed
  from l ps d step show ?thesis by simp
qed

text \<open>
  Claim C4. After any sequence of editor events on the empty manager at most one tracked
  file is active, and a file that is not active has neither cursor nor selected text. In
  an activation the first block leaves the list as it is and every entry with active
  flag, cursor and selected text cleared; the call ends with the new entry in front,
  active, and every other entry cleared.
\<close>

theorem at_most_one_active:
  "length (filter isActive (tracked (handleEvents es emptyManager))) \<le> 1
   \<and> list_all (\<lambda>f. isActive f \<or> cleared f) (tracked (handleEvents es emptyManager))
   \<and> openFiles (deactivatePrevious (handleEvents es emptyManager)) = openFiles (handleEvents es emptyManager)
   \<and> list_all cleared (tracked (deactivatePrevious (handleEvents es emptyManager)))
   \<and> (case tracked (addOrMoveToFront now e (handleEvents es emptyManager)) of
        [] \<Rightarrow> False
      | f # rest \<Rightarrow>
          f = \<lparr>path = fsPath (document_uri e), timestamp = now, isActive = True,
               cursor = cursorOf e, selectedText = truncateSelection (selection_text e)\<rparr>
          \<and> list_all cleared rest)"
proof -
  let ?m = "handleEvents es emptyManager"
  have wf: "wellFormed ?m" by (rule wellFormed_handleEvents[OF wellFormed_empty])
  then have fr: "fresh ?m" and di: "distinctRefs ?m" and ai: "activeInv ?m"
    by (simp_all add: wellFormed_def)
  have a: "length (filter isActive (tracked ?m)) \<le> 1" by (rule activeInv_at_most_one[OF ai])
  have b: "list_all (\<lambda>f. isActive f \<or> cleared f) (tracked ?m)" by (rule activeInv_inactive_cleared[OF ai])
  have c: "openFiles (deactivatePrevious ?m) = openFiles ?m"
    by (simp add: deactivatePrevious_def setObject_def split: option.splits)
  have d: "list_all cleared (tracked (deactivatePrevious ?m))"
    using deactivatePrevious_allCleared[OF ai] by (simp add: allCleared_def)
  from tracked_addOrMoveToFront[OF fr di, of now e] obtain rest where
    t: "tracked (addOrMoveToFront now e ?m) =
     \<lparr>path = fsPath (document_uri e), timestamp = now, isActive = True, cursor = cursorOf e,
       selectedText = truncateSelection (selection_text e)\<rparr> # rest"
    and sub: "set rest \<subseteq> set (tracked (deactivatePrevious ?m))" by blast
  from d sub have "list_all cleared rest" by (auto simp: list_all_iff)
  with t have e: "(case tracked (addOrMoveToFront now e ?m) of
        [] \<Rightarrow> False
      | f # rest \<Rightarrow>
          f = \<lparr>path = fsPath (document_uri e), timestamp = now, isActive = True,
               cursor = cursorOf e, selectedText = truncateSelection (selection_text e)\<rparr>
          \<and> list_all cleared rest)" by simp
  from a b c d e show ?thesis by blast
qed

lemma isActivation_activationsOf: "list_all isActivation (activationsOf ps)"
  by (simp add: activationsOf_def list_all_iff)

lemma activatedPath_activationsOf: "List.map_filter activatedPath (activationsOf ps) = ps"
  by (induction ps) (simp_all add: activationsOf_def map_filter_simps fileEditor_def isFileUri_def)

theorem tracked_list_mru_bounded_witness:
  "list_all isActivation
     (activationsOf [''f0'', ''f1'', ''f2'', ''f3'', ''f4'', ''f5'', ''f6'', ''f7'', ''f8'', ''f9'', ''f10'', ''f5''])
   \<and> paths (handleEvents
       (activationsOf [''f0'', ''f1'', ''f2'', ''f3'', ''f4'', ''f5'', ''f6'', ''f7'', ''f8'', ''f9'', ''f10'', ''f5''])
       emptyManager)
     = [''f5'', ''f10'', ''f9'', ''f8'', ''f7'', ''f6'', ''f4'', ''f3'', ''f2'', ''f1'']"
proof -
  let ?ps = "[''f0'', ''f1'', ''f2'', ''f3'', ''f4'', ''f5'', ''f6'', ''f7'', ''f8'', ''f9'', ''f10'', ''f5'']"
  have h: "list_all isActivation (activationsOf ?ps)" by (rule isActivation_activationsOf)
  have "paths (handleEvents (activationsOf ?ps) emptyManager) =
         take MAX_FILES (mostRecentFirst (List.map_filter activatedPath (activationsOf ?ps)))"
    by (rule conjunct1[OF conjunct2[OF tracked_list_mru_bounded[OF h]]])
  also have "\<dots> = take MAX_FILES (mostRecentFirst ?ps)"
    by (simp only: activatedPath_activationsOf)
  also have "\<dots> = [''f5'', ''f10'', ''f9'', ''f8'', ''f7'', ''f6'', ''f4'', ''f3'', ''f2'', ''f1'']"
    by (simp add: mostRecentFirst_def MAX_FILES_def)
  finally show ?thesis using h by blast
qed

lemma truncateSelection_nonempty: "truncateSelection s \<noteq> Some []"
  by (simp add: truncateSelection_def)

lemma truncateSelection_cases:
  "truncateSelection s =
     (if s = [] then None
      else if length s \<le> 16384 then Some s
      else Some (take 16384 s @ ''... [TRUNCATED]''))"
  by (simp add: truncateSelection_def MAX_SELECTED_TEXT_LENGTH_def)

text \<open>
  Claim C5, as amended. A selection change in a file document whose first tracked entry
  by path is the active one stores the cursor (line plus one, character unchanged) and,
  for a selected text of length L: nothing when L is 0, the text itself when
  0 < L \<le> 16384, and otherwise its first 16384 code units followed by the marker of
  15 code units, 16399 in all.
\<close>

theorem selection_update_stores_cursor_and_text:
  assumes "isFileUri (document_uri e)"
    and "find (\<lambda>r. path (objects m r) = fsPath (document_uri e)) (openFiles m) = Some r"
    and "isActive (objects m r)"
    and "selection_active e = Some pos"
  shows "cursor (objects (handleEvent (SelectionChanged e) m) r)
           = Some \<lparr>line = line pos + 1, character = character pos\<rparr>
     \<and> (length (selection_text e) = 0 \<longrightarrow>
          selectedText (objects (handleEvent (SelectionChanged e) m) r) = None)
     \<and> (0 < length (selection_text e) \<and> length (selection_text e) \<le> 16384 \<longrightarrow>
          selectedText (objects (handleEvent (SelectionChanged e) m) r) = Some (selection_text e))
     \<and> (16384 < length (selection_text e) \<longrightarrow>
          selectedText (objects (handleEvent (SelectionChanged e) m) r)
            = Some (take 16384 (selection_text e) @ ''... [TRUNCATED]'')
          \<and> length (the (selectedText (objects (handleEvent (SelectionChanged e) m) r))) = 16384 + 15)"
proof -
  have "objects (handleEvent (SelectionChanged e) m) r =
      (objects m r)\<lparr>cursor := cursorOf e, selectedText := truncateSelection (selection_text e)\<rparr>"
    using assms(1-3) by (simp add: updateActiveContext_def setObject_def)
  then show ?thesis
    using assms(4) by (auto simp: cursorOf_def truncateSelection_cases)
qed

lemma noEmptySelection_updateActiveContext:
  "noEmptySelection m \<Longrightarrow> noEmptySelection (updateActiveContext e m)"
  by (auto simp: noEmptySelection_def updateActiveContext_def setObject_def truncateSelection_nonempty
      split: option.splits)

lemma noEmptySelection_removePath: "noEmptySelection (removePath p m) = noEmptySelection m"
  by (auto simp: noEmptySelection_def removePath_def split: option.splits)

lemma noEmptySelection_rename: "noEmptySelection m \<Longrightarrow> noEmptySelection (rename a b m)"
  by (auto simp: noEmptySelection_def rename_def setObject_def Let_def split: option.splits)

lemma noEmptySelection_addOrMoveToFront:
  assumes "noEmptySelection m" shows "noEmptySelection (addOrMoveToFront now e m)"
proof -
  have 1: "noEmptySelection (deactivatePrevious m)"
    using assms by (auto simp: noEmptySelection_def deactivatePrevious_def setObject_def split: option.splits)
  have 2: "\<And>m p. noEmptySelection m \<Longrightarrow> noEmptySelection (unshiftActive p now m)"
    by (auto simp: noEmptySelection_def unshiftActive_def)
  have 3: "\<And>m. noEmptySelection (enforceMax m) = noEmptySelection m"
    by (auto simp: noEmptySelection_def enforceMax_def)
  show ?thesis
    unfolding addOrMoveToFront_def
    by (intro noEmptySelection_updateActiveContext) (simp add: 1 2 3 noEmptySelection_removePath)
qed

lemma noEmptySelection_deleteFiles: "noEmptySelection m \<Longrightarrow> noEmptySelection (deleteFiles uris m)"
  by (induction uris arbitrary: m) (auto simp: remove_def noEmptySelection_removePath)

lemma noEmptySelection_renameFiles: "noEmptySelection m \<Longrightarrow> noEmptySelection (renameFiles files m)"
  by (induction files arbitrary: m) (auto simp: remove_def noEmptySelection_removePath noEmptySelection_rename)

lemma noEmptySelection_handleEvent: "noEmptySelection m \<Longrightarrow> noEmptySelection (handleEvent e m)"
  by (induction e m rule: handleEvent.induct)
     (auto simp: remove_def noEmptySelection_removePath noEmptySelection_updateActiveContext
        noEmptySelection_addOrMoveToFront noEmptySelection_deleteFiles noEmptySelection_renameFiles)

lemma noEmptySelection_handleEvents: "noEmptySelection m \<Longrightarrow> noEmptySelection (handleEvents es m)"
  by (induction es arbitrary: m) (auto simp: noEmptySelection_handleEvent)

lemma noEmptySelection_empty: "noEmptySelection emptyManager"
  by (simp add: noEmptySelection_def emptyManager_def newFile_def)

text \<open>
  Claim C10. An update of the active file with an empty selected text stores no selected
  text, and no context returned by the state getter after any sequence of events shows
  an empty string as selected text, whenever it is read afterwards.
\<close>

theorem empty_selection_is_absent:
  "(find (\<lambda>r. path (objects m r) = fsPath (document_uri e)) (openFiles m) = Some r
      \<and> isActive (objects m r) \<and> selection_text e = []
      \<longrightarrow> selectedText (objects (updateActiveContext e m) r) = None)
   \<and> list_all (\<lambda>f. selectedText f \<noteq> Some [])
       (observe (handleEvents later (snd (state trusted (handleEvents es emptyManager))))
                (fst (state trusted (handleEvents es emptyManager))))"
proof -
  have a: "find (\<lambda>r. path (objects m r) = fsPath (document_uri e)) (openFiles m) = Some r
      \<and> isActive (objects m r) \<and> selection_text e = []
      \<longrightarrow> selectedText (objects (updateActiveContext e m) r) = None"
    by (simp add: updateActiveContext_def setObject_def truncateSelection_def)
  have "noEmptySelection (handleEvents es emptyManager)"
    by (intro noEmptySelection_handleEvents noEmptySelection_empty)
  then have "noEmptySelection (snd (state trusted (handleEvents es emptyManager)))"
    by (simp add: noEmptySelection_def state_def)
  then have "noEmptySelection (handleEvents later (snd (state trusted (handleEvents es emptyManager))))"
    by (rule noEmptySelection_handleEvents)
  then have b: "list_all (\<lambda>f. selectedText f \<noteq> Some [])
       (observe (handleEvents later (snd (state trusted (handleEvents es emptyManager))))
                (fst (state trusted (handleEvents es emptyManager))))"
    by (simp add: noEmptySelection_def observe_def list_all_iff)
  from a b show ?thesis by blast
qed

lemma length_longText: "length longText = 16385"
  by (simp add: longText_def)

lemmas manager_defs = addOrMoveToFront_def updateActiveContext_def
  enforceMax_def unshiftActive_def removePath_def deactivatePrevious_def setObject_def emptyManager_def
  openFiles_def setOpenFiles_def openFilesRef_def
  tracked_def fileEditor_def activationsOf_def isFileUri_def cursorOf_def truncateSelection_def
  MAX_FILES_def MAX_SELECTED_TEXT_LENGTH_def splice1_def newFile_def remove_def rename_def
  state_def observe_def

theorem selection_update_stores_cursor_and_text_witness:
  "isFileUri (document_uri (fileEditor ''a'' 3 4 longText))
   \<and> find (\<lambda>r. path (objects (handleEvents (activationsOf [''a'']) emptyManager) r)
                 = fsPath (document_uri (fileEditor ''a'' 3 4 longText)))
        (openFiles (handleEvents (activationsOf [''a'']) emptyManager)) = Some 0
   \<and> isActive (objects (handleEvents (activationsOf [''a'']) emptyManager) 0)
   \<and> selection_active (fileEditor ''a'' 3 4 longText) = Some \<lparr>line = 3, character = 4\<rparr>
   \<and> cursor (objects (handleEvent (SelectionChanged (fileEditor ''a'' 3 4 longText))
                (handleEvents (activationsOf [''a'']) emptyManager)) 0)
        = Some \<lparr>line = 4, character = 4\<rparr>
   \<and> length (the (selectedText (objects (handleEvent (SelectionChanged (fileEditor ''a'' 3 4 longText))
                (handleEvents (activationsOf [''a'']) emptyManager)) 0))) = 16399"
proof -
  let ?m = "handleEvents (activationsOf [''a'']) emptyManager"
  let ?e = "fileEditor ''a'' 3 4 longText"
  have h1: "isFileUri (document_uri ?e)" by (simp add: fileEditor_def isFileUri_def)
  have h2: "find (\<lambda>r. path (objects ?m r) = fsPath (document_uri ?e)) (openFiles ?m) = Some 0"
    by (simp add: manager_defs)
  have h3: "isActive (objects ?m 0)" by (simp add: manager_defs)
  have h4: "selection_active ?e = Some \<lparr>line = 3, character = 4\<rparr>" by (simp add: fileEditor_def)
  have long: "16384 < length (selection_text ?e)" by (simp add: fileEditor_def length_longText)
  from selection_update_stores_cursor_and_text[OF h1 h2 h3 h4] long
  have "cursor (objects (handleEvent (SelectionChanged ?e) ?m) 0) = Some \<lparr>line = 4, character = 4\<rparr>"
    and "length (the (selectedText (objects (handleEvent (SelectionChanged ?e) ?m) 0))) = 16399"
    by simp_all
  with h1 h2 h3 h4 show ?thesis by blast
qed

text \<open>
  Claim C5 as stated fails for the empty selection, whose length 0 is below the limit:
  the stored selected text is absent, not the (empty) selection.
\<close>

theorem selection_unchanged_counterexample:
  "length (selection_text (fileEditor ''a'' 3 4 [])) \<le> 16384
   \<and> tracked (handleEvents (activationsOf [''a'']) emptyManager)
       = [\<lparr>path = ''a'', timestamp = 7, isActive = True,
           cursor = Some \<lparr>line = 1, character = 0\<rparr>, selectedText = None\<rparr>]
   \<and> tracked (handleEvent (SelectionChanged (fileEditor ''a'' 3 4 []))
               (handleEvents (activationsOf [''a'']) emptyManager))
       = [\<lparr>path = ''a'', timestamp = 7, isActive = True,
           cursor = Some \<lparr>line = 4, character = 4\<rparr>, selectedText = None\<rparr>]
   \<and> selectedText (hd (tracked (handleEvent (SelectionChanged (fileEditor ''a'' 3 4 []))
               (handleEvents (activationsOf [''a'']) emptyManager))))
       \<noteq> Some (selection_text (fileEditor ''a'' 3 4 []))"
  by (simp add: manager_defs)

theorem empty_selection_is_absent_witness:
  "find (\<lambda>r. path (objects (handleEvents [ActiveEditorChanged (Some (fileEditor ''a'' 0 0 ''xy'')) 7]
                                emptyManager) r)
                 = fsPath (document_uri (fileEditor ''a'' 3 4 [])))
        (openFiles (handleEvents [ActiveEditorChanged (Some (fileEditor ''a'' 0 0 ''xy'')) 7]
                      emptyManager)) = Some 0
   \<and> isActive (objects (handleEvents [ActiveEditorChanged (Some (fileEditor ''a'' 0 0 ''xy'')) 7]
                         emptyManager) 0)
   \<and> selectedText (objects (handleEvents [ActiveEditorChanged (Some (fileEditor ''a'' 0 0 ''xy'')) 7]
                         emptyManager) 0) = Some ''xy''
   \<and> selection_text (fileEditor ''a'' 3 4 []) = []
   \<and> selectedText (objects (updateActiveContext (fileEditor ''a'' 3 4 [])
         (handleEvents [ActiveEditorChanged (Some (fileEditor ''a'' 0 0 ''xy'')) 7] emptyManager)) 0)
       = None"
proof -
  let ?m = "handleEvents [ActiveEditorChanged (Some (fileEditor ''a'' 0 0 ''xy'')) 7] emptyManager"
  let ?e = "fileEditor ''a'' 3 4 []"
  have h2: "find (\<lambda>r. path (objects ?m r) = fsPath (document_uri ?e)) (openFiles ?m) = Some 0"
    by (simp add: manager_defs)
  have h3: "isActive (objects ?m 0)" by (simp add: manager_defs)
  have h3': "selectedText (objects ?m 0) = Some ''xy''" by (simp add: manager_defs)
  have h4: "selection_text ?e = []" by (simp add: fileEditor_def)
  have "selectedText (objects (updateActiveContext ?e ?m) 0) = None"
    by (rule mp[OF conjunct1[OF empty_selection_is_absent]]) (intro conjI h2 h3 h4)
  with h2 h3 h3' h4 show ?thesis by blast
qed

lemma sameStamps_refl: "sameStamps m m"
  by (simp add: sameStamps_def)

lemma sameStamps_trans: "sameStamps a b \<Longrightarrow> sameStamps b c \<Longrightarrow> sameStamps a c"
  by (auto simp: sameStamps_def)

lemma sameStamps_updateActiveContext: "sameStamps m (updateActiveContext e m)"
  by (auto simp: sameStamps_def updateActiveContext_def setObject_def split: option.splits)

lemma sameStamps_removePath: "sameStamps m (removePath p m)"
  by (auto simp: sameStamps_def removePath_def split: option.splits)

lemma sameStamps_rename: "sameStamps m (rename a b m)"
  by (auto simp: sameStamps_def rename_def setObject_def Let_def split: option.splits)

lemma sameStamps_deactivatePrevious: "sameStamps m (deactivatePrevious m)"
  by (auto simp: sameStamps_def deactivatePrevious_def setObject_def split: option.splits)

lemma sameStamps_unshiftActive: "sameStamps m (unshiftActive p now m)"
  by (auto simp: sameStamps_def unshiftActive_def)

lemma sameStamps_enforceMax: "sameStamps m (enforceMax m)"
  by (auto simp: sameStamps_def enforceMax_def)

lemma sameStamps_addOrMoveToFront: "sameStamps m (addOrMoveToFront now e m)"
  unfolding addOrMoveToFront_def
  by (rule sameStamps_trans[OF sameStamps_deactivatePrevious
        sameStamps_trans[OF sameStamps_removePath
          sameStamps_trans[OF sameStamps_unshiftActive
            sameStamps_trans[OF sameStamps_enforceMax sameStamps_updateActiveContext]]]])

lemma sameStamps_deleteFiles: "sameStamps m (deleteFiles uris m)"
proof (induction uris arbitrary: m)
  case Nil show ?case by (simp add: sameStamps_refl)
next
  case (Cons u us)
  have "sameStamps m (if isFileUri u then remove u m else m)"
    by (simp add: remove_def sameStamps_removePath sameStamps_refl)
  from sameStamps_trans[OF this Cons.IH] show ?case by simp
qed

lemma sameStamps_renameFiles: "sameStamps m (renameFiles files m)"
proof (induction files arbitrary: m)
  case Nil show ?case by (simp add: sameStamps_refl)
next
  case (Cons f fs)
  obtain a b where f: "f = (a, b)" by (cases f)
  have "sameStamps m (if isFileUri a then (if isFileUri b then rename a b m else remove a m) else m)"
    by (simp add: remove_def sameStamps_removePath sameStamps_rename sameStamps_refl)
  from sameStamps_trans[OF this Cons.IH] show ?case by (simp add: f)
qed

lemma sameStamps_handleEvent: "sameStamps m (handleEvent e m)"
  by (induction e m rule: handleEvent.induct)
     (simp_all add: remove_def sameStamps_removePath sameStamps_updateActiveContext
        sameStamps_addOrMoveToFront sameStamps_deleteFiles sameStamps_renameFiles sameStamps_refl)

lemma sameStamps_handleEvents: "sameStamps m (handleEvents es m)"
proof (induction es arbitrary: m)
  case Nil show ?case by (simp add: sameStamps_refl)
next
  case (Cons e es)
  from sameStamps_trans[OF sameStamps_handleEvent Cons.IH] show ?case by simp
qed

lemma objects_removePath: "objects (removePath p m) = objects m"
  by (simp add: removePath_def split: option.splits)

lemma objects_deleteFiles: "objects (deleteFiles uris m) = objects m"
  by (induction uris arbitrary: m) (simp_all add: remove_def objects_removePath)

lemma objects_removals: "list_all isRemoval es \<Longrightarrow> objects (handleEvents es m) = objects m"
proof (induction es arbitrary: m)
  case Nil show ?case by simp
next
  case (Cons e es)
  then have "isRemoval e" by simp
  then have "objects (handleEvent e m) = objects m"
    by (cases e) (simp_all add: remove_def objects_removePath objects_deleteFiles)
  with Cons show ?case by simp
qed

lemma otherArrays_refl: "otherArrays m m"
  by (simp add: otherArrays_def)

lemma otherArrays_trans: "otherArrays a b \<Longrightarrow> otherArrays b c \<Longrightarrow> otherArrays a c"
  by (simp add: otherArrays_def)

lemma otherArrays_setOpenFiles: "otherArrays m (setOpenFiles xs m)"
  by (simp add: otherArrays_def setOpenFiles_def)

lemma otherArrays_setObject: "otherArrays m (setObject r f m)"
  by (simp add: otherArrays_def setObject_def)

lemma otherArrays_updateActiveContext: "otherArrays m (updateActiveContext e m)"
  by (simp add: updateActiveContext_def otherArrays_setObject otherArrays_refl split: option.splits)

lemma otherArrays_removePath: "otherArrays m (removePath p m)"
  by (simp add: removePath_def otherArrays_setOpenFiles otherArrays_refl split: option.splits)

lemma otherArrays_rename: "otherArrays m (rename a b m)"
  by (simp add: rename_def Let_def otherArrays_setObject otherArrays_refl split: option.splits)

lemma otherArrays_deactivatePrevious: "otherArrays m (deactivatePrevious m)"
  by (simp add: deactivatePrevious_def otherArrays_setObject otherArrays_refl split: option.splits)

lemma otherArrays_unshiftActive: "otherArrays m (unshiftActive p now m)"
  by (simp add: otherArrays_def unshiftActive_def setOpenFiles_def)

lemma otherArrays_enforceMax: "otherArrays m (enforceMax m)"
  by (simp add: enforceMax_def otherArrays_setOpenFiles otherArrays_refl)

lemma otherArrays_addOrMoveToFront: "otherArrays m (addOrMoveToFront now e m)"
  unfolding addOrMoveToFront_def
  by (rule otherArrays_trans[OF otherArrays_deactivatePrevious
        otherArrays_trans[OF otherArrays_removePath
          otherArrays_trans[OF otherArrays_unshiftActive
            otherArrays_trans[OF otherArrays_enforceMax otherArrays_updateActiveContext]]]])

lemma otherArrays_deleteFiles: "otherArrays m (deleteFiles uris m)"
proof (induction uris arbitrary: m)
  case Nil show ?case by (simp add: otherArrays_refl)
next
  case (Cons u us)
  have "otherArrays m (if isFileUri u then remove u m else m)"
    by (simp add: remove_def otherArrays_removePath otherArrays_refl)
  from otherArrays_trans[OF this Cons.IH] show ?case by simp
qed

lemma otherArrays_renameFiles: "otherArrays m (renameFiles files m)"
proof (induction files arbitrary: m)
  case Nil show ?case by (simp add: otherArrays_refl)
next
  case (Cons f fs)
  obtain a b where f: "f = (a, b)" by (cases f)
  have "otherArrays m (if isFileUri a then (if isFileUri b then rename a b m else remove a m) else m)"
    by (simp add: remove_def otherArrays_removePath otherArrays_rename otherArrays_refl)
  from otherArrays_trans[OF this Cons.IH] show ?case by (simp add: f)
qed

lemma otherArrays_handleEvent: "otherArrays m (handleEvent e m)"
  by (induction e m rule: handleEvent.induct)
     (simp_all add: remove_def otherArrays_removePath otherArrays_updateActiveContext
        otherArrays_addOrMoveToFront otherArrays_deleteFiles otherArrays_renameFiles otherArrays_refl)

lemma otherArrays_handleEvents: "otherArrays m (handleEvents es m)"
proof (induction es arbitrary: m)
  case Nil show ?case by (simp add: otherArrays_refl)
next
  case (Cons e es)
  from otherArrays_trans[OF otherArrays_handleEvent Cons.IH] show ?case by simp
qed

lemma state_store:
  "openFiles_copy (fst (state trusted m)) = nextArray m"
  "objects (snd (state trusted m)) = objects m"
  "nextRef (snd (state trusted m)) = nextRef m"
  "nextArray (snd (state trusted m)) = Suc (nextArray m)"
  "openFiles (snd (state trusted m)) = openFiles m"
  "arrays (snd (state trusted m)) (nextArray m) = openFiles m"
  by (simp_all add: state_def openFiles_def)

lemma arraysKept_refl: "arraysKept m m"
  by (simp add: arraysKept_def)

lemma arraysKept_trans: "arraysKept a b \<Longrightarrow> arraysKept b c \<Longrightarrow> arraysKept a c"
  by (auto simp: arraysKept_def)

lemma arraysKept_perform: "arraysKept m (perform u m)"
proof (cases u)
  case (Handled e)
  with otherArrays_handleEvent[of m e] show ?thesis by (simp add: arraysKept_def otherArrays_def)
next
  case (StateRead trusted)
  then show ?thesis by (simp add: arraysKept_def state_def)
qed

lemma arraysKept_performAll: "arraysKept m (performAll us m)"
proof (induction us arbitrary: m)
  case Nil show ?case by (simp add: arraysKept_refl)
next
  case (Cons u us)
  from arraysKept_trans[OF arraysKept_perform Cons.IH] show ?case by simp
qed

lemma sameStamps_performAll: "sameStamps m (performAll us m)"
proof (induction us arbitrary: m)
  case Nil show ?case by (simp add: sameStamps_refl)
next
  case (Cons u us)
  have "sameStamps m (perform u m)"
    by (cases u) (simp_all add: sameStamps_handleEvent, simp add: sameStamps_def state_store)
  from sameStamps_trans[OF this Cons.IH] show ?case by simp
qed

lemma wellFormed_state: "wellFormed m \<Longrightarrow> wellFormed (snd (state trusted m))"
  by (simp add: wellFormed_def fresh_def distinctRefs_def activeInv_def state_store split: list.splits)

lemma wellFormed_performAll: "wellFormed m \<Longrightarrow> wellFormed (performAll us m)"
proof (induction us arbitrary: m)
  case Nil then show ?case by simp
next
  case (Cons u us)
  from Cons.prems have "wellFormed (perform u m)"
    by (cases u) (simp_all add: wellFormed_handleEvent wellFormed_state)
  with Cons.IH show ?case by simp
qed

lemma objects_unwritten: "list_all writesNoObject us \<Longrightarrow> objects (performAll us m) = objects m"
proof (induction us arbitrary: m)
  case Nil show ?case by simp
next
  case (Cons u us)
  then have "writesNoObject u" by simp
  then have "objects (perform u m) = objects m"
    using objects_removals[of "[e]" m for e] by (cases u) (simp_all add: state_store)
  with Cons show ?case by simp
qed

lemma nextArray_positive: "0 < nextArray (performAll us emptyManager)"
  using arraysKept_performAll[of emptyManager us] by (simp add: arraysKept_def emptyManager_def)

text \<open>
  Claim C9, as amended. After any series of events and reads, the state getter returns a
  new array, not the manager's own, with the elements of the manager's array in their
  order, and leaves the manager's list and objects as they are, so that the context
  shows the tracked list of that time. No later event or read changes the elements of
  the returned array, their number or their order, nor the timestamp of any of them, and
  close and delete events change nothing that is read through the context. (Activation,
  selection change and rename write into the objects the context shares with the
  manager.)
\<close>

theorem snapshot_is_shallow_copy:
  "openFiles_copy (fst (state trusted (performAll before emptyManager))) \<noteq> openFilesRef
   \<and> arrays (snd (state trusted (performAll before emptyManager)))
         (openFiles_copy (fst (state trusted (performAll before emptyManager))))
       = openFiles (performAll before emptyManager)
   \<and> openFiles (snd (state trusted (performAll before emptyManager)))
       = openFiles (performAll before emptyManager)
   \<and> objects (snd (state trusted (performAll before emptyManager)))
       = objects (performAll before emptyManager)
   \<and> observe (snd (state trusted (performAll before emptyManager)))
              (fst (state trusted (performAll before emptyManager)))
       = tracked (performAll before emptyManager)
   \<and> arrays (performAll later (snd (state trusted (performAll before emptyManager))))
         (openFiles_copy (fst (state trusted (performAll before emptyManager))))
       = openFiles (performAll before emptyManager)
   \<and> map timestamp (observe (performAll later (snd (state trusted (performAll before emptyManager))))
                             (fst (state trusted (performAll before emptyManager))))
       = map timestamp (tracked (performAll before emptyManager))
   \<and> (list_all writesNoObject later \<longrightarrow>
        observe (performAll later (snd (state trusted (performAll before emptyManager))))
                (fst (state trusted (performAll before emptyManager)))
          = tracked (performAll before emptyManager))"
proof -
  let ?m = "performAll before emptyManager"
  let ?c = "fst (state trusted ?m)"
  let ?m1 = "snd (state trusted ?m)"
  let ?m' = "performAll later ?m1"
  have ref: "openFiles_copy ?c = nextArray ?m" by (simp add: state_store)
  have a: "openFiles_copy ?c \<noteq> openFilesRef"
    using nextArray_positive[of before] by (simp add: ref openFilesRef_def)
  have b: "arrays ?m1 (openFiles_copy ?c) = openFiles ?m"
    by (simp add: state_store)
  have c: "openFiles ?m1 = openFiles ?m" and d: "objects ?m1 = objects ?m"
    by (simp_all add: state_store)
  have e: "observe ?m1 ?c = tracked ?m"
    by (simp add: observe_def tracked_def b d)
  have "arraysKept ?m1 ?m'" by (rule arraysKept_performAll)
  moreover have "openFiles_copy ?c < nextArray ?m1" by (simp add: state_store)
  ultimately have "arrays ?m' (openFiles_copy ?c) = arrays ?m1 (openFiles_copy ?c)"
    using a by (simp add: arraysKept_def)
  with b have f: "arrays ?m' (openFiles_copy ?c) = openFiles ?m" by simp
  have "wellFormed ?m" by (rule wellFormed_performAll[OF wellFormed_empty])
  then have fr: "\<forall>r\<in>set (openFiles ?m). r < nextRef ?m1"
    by (simp add: wellFormed_def fresh_def list_all_iff state_store)
  have "sameStamps ?m1 ?m'" by (rule sameStamps_performAll)
  with fr have "\<forall>r\<in>set (openFiles ?m). timestamp (objects ?m' r) = timestamp (objects ?m1 r)"
    by (auto simp: sameStamps_def)
  then have g: "map timestamp (observe ?m' ?c) = map timestamp (tracked ?m)"
    by (simp add: observe_def tracked_def f d)
  have h: "list_all writesNoObject later \<longrightarrow> observe ?m' ?c = tracked ?m"
    by (simp add: observe_def tracked_def f d objects_unwritten)
  from a b c d e f g h show ?thesis by blast
qed

theorem snapshot_is_shallow_copy_witness:
  "list_all writesNoObject
     [Handled (DocumentClosed \<lparr>scheme = ''file'', fsPath = ''a'', query = []\<rparr>), StateRead True]
   \<and> tracked (performAll
        [Handled (DocumentClosed \<lparr>scheme = ''file'', fsPath = ''a'', query = []\<rparr>), StateRead True]
        (snd (state True (performAll [Handled (ActiveEditorChanged (Some (fileEditor ''a'' 0 0 [])) 7)]
                            emptyManager)))) = []
   \<and> observe (performAll
        [Handled (DocumentClosed \<lparr>scheme = ''file'', fsPath = ''a'', query = []\<rparr>), StateRead True]
        (snd (state True (performAll [Handled (ActiveEditorChanged (Some (fileEditor ''a'' 0 0 [])) 7)]
                            emptyManager))))
        (fst (state True (performAll [Handled (ActiveEditorChanged (Some (fileEditor ''a'' 0 0 [])) 7)]
                            emptyManager)))
       = [\<lparr>path = ''a'', timestamp = 7, isActive = True,
           cursor = Some \<lparr>line = 1, character = 0\<rparr>, selectedText = None\<rparr>]"
proof -
  let ?later = "[Handled (DocumentClosed \<lparr>scheme = ''file'', fsPath = ''a'', query = []\<rparr>), StateRead True]"
  let ?before = "[Handled (ActiveEditorChanged (Some (fileEditor ''a'' 0 0 [])) 7)]"
  let ?m = "performAll ?before emptyManager"
  have h: "list_all writesNoObject ?later" by simp
  have t: "tracked ?m = [\<lparr>path = ''a'', timestamp = 7, isActive = True,
           cursor = Some \<lparr>line = 1, character = 0\<rparr>, selectedText = None\<rparr>]"
    by (simp add: manager_defs)
  have e: "tracked (performAll ?later (snd (state True ?m))) = []"
    by (simp add: manager_defs)
  have "list_all writesNoObject ?later \<longrightarrow>
      observe (performAll ?later (snd (state True ?m))) (fst (state True ?m)) = tracked ?m"
    using snapshot_is_shallow_copy[where before="?before" and trusted=True and later="?later"]
    by blast
  with h t e show ?thesis by simp
qed

text \<open>
  Claim C9 as stated fails: a context taken while \<^verbatim>\<open>a\<close> is active shows
  \<^verbatim>\<open>a\<close> inactive and without cursor once \<^verbatim>\<open>b\<close> has been activated.
\<close>

theorem snapshot_immutable_counterexample:
  "observe (snd (state True (handleEvents (activationsOf [''a'']) emptyManager)))
           (fst (state True (handleEvents (activationsOf [''a'']) emptyManager)))
     = [\<lparr>path = ''a'', timestamp = 7, isActive = True,
         cursor = Some \<lparr>line = 1, character = 0\<rparr>, selectedText = None\<rparr>]
   \<and> observe (handleEvent (ActiveEditorChanged (Some (fileEditor ''b'' 0 0 [])) 8)
               (snd (state True (handleEvents (activationsOf [''a'']) emptyManager))))
             (fst (state True (handleEvents (activationsOf [''a'']) emptyManager)))
     = [\<lparr>path = ''a'', timestamp = 7, isActive = False, cursor = None, selectedText = None\<rparr>]"
  by (simp add: manager_defs)

theorem at_most_one_active_witness:
  "tracked (handleEvents (activationsOf [''a'', ''b'']) emptyManager)
     = [\<lparr>path = ''b'', timestamp = 7, isActive = True,
         cursor = Some \<lparr>line = 1, character = 0\<rparr>, selectedText = None\<rparr>,
        \<lparr>path = ''a'', timestamp = 7, isActive = False, cursor = None, selectedText = None\<rparr>]
   \<and> length (filter isActive (tracked (handleEvents (activationsOf [''a'', ''b'']) emptyManager))) \<le> 1
   \<and> list_all cleared
        (tracked (deactivatePrevious (handleEvents (activationsOf [''a'', ''b'']) emptyManager)))"
proof -
  let ?m = "handleEvents (activationsOf [''a'', ''b'']) emptyManager"
  have t: "tracked ?m
     = [\<lparr>path = ''b'', timestamp = 7, isActive = True,
         cursor = Some \<lparr>line = 1, character = 0\<rparr>, selectedText = None\<rparr>,
        \<lparr>path = ''a'', timestamp = 7, isActive = False, cursor = None, selectedText = None\<rparr>]"
    by (simp add: manager_defs)
  from at_most_one_active[where es="activationsOf [''a'', ''b'']" and now=8
      and e="fileEditor ''c'' 0 0 []"]
  have "length (filter isActive (tracked ?m)) \<le> 1"
    and "list_all cleared (tracked (deactivatePrevious ?m))"
    by blast+
  with t show ?thesis by blast
qed

section \<open>The diff manager\<close>

lemma diffDocuments_openTextDocument [simp]:
  "diffDocuments (snd (openTextDocument uri dm)) = diffDocuments dm"
  by (simp add: openTextDocument_def Let_def split: option.splits)

lemma content_openTextDocument [simp]:
  "content (snd (openTextDocument uri dm)) = content dm"
  by (simp add: openTextDocument_def Let_def split: option.splits)

lemma diffDocuments_closeDiffEditor:
  "map_of (diffDocuments (closeDiffEditor uri dm)) = (map_of (diffDocuments dm))(uri := None)"
  by (auto simp: closeDiffEditor_def Let_def setContext_def deleteContent_def delete_conv' fun_eq_iff
      split: option.splits)

lemma content_closeDiffEditor:
  "map_of (diffDocuments dm) uri = Some info \<Longrightarrow>
     map_of (content (closeDiffEditor uri dm)) = (map_of (content dm))(uri := None)"
  by (auto simp: closeDiffEditor_def Let_def setContext_def deleteContent_def delete_conv')

lemma acceptDiff_unknown: "map_of (diffDocuments dm) uri = None \<Longrightarrow> acceptDiff uri dm = ([], dm)"
  by (simp add: acceptDiff_def)

lemma acceptDiff_known:
  assumes "map_of (diffDocuments dm) uri = Some info"
  shows "acceptDiff uri dm =
    ([DiffAccepted (originalFilePath info) (currentText uri dm)],
     closeDiffEditor uri (snd (openTextDocument uri dm)))"
  using assms by (simp add: acceptDiff_def currentText_def split_beta Let_def)

lemma showDiff_diffDocuments:
  "diffDocuments (showDiff p c r ex dm) =
     AList.update (diffUri p r) \<lparr>originalFilePath = p, newContent = c, rightDocUri = diffUri p r\<rparr>
       (diffDocuments dm)"
  by (simp add: showDiff_def Let_def vscode_diff_def setContext_def addDiffDocument_def setContent_def
      diffUri_def)

lemma showDiff_content:
  "content (showDiff p c r ex dm) = AList.update (diffUri p r) c (content dm)"
  by (simp add: showDiff_def Let_def vscode_diff_def setContext_def addDiffDocument_def setContent_def
      diffUri_def)

lemma showDiff_currentText: "currentText (diffUri p r) (showDiff p c r ex dm) = c"
  by (auto simp: currentText_def showDiff_def Let_def vscode_diff_def setContext_def addDiffDocument_def
      setContent_def diffUri_def openTextDocument_def provideTextDocumentContent_def update_conv'
      split: option.splits)

lemma editDocument_currentText: "currentText uri (editDocument uri t dm) = t"
  by (simp add: currentText_def editDocument_def openTextDocument_def update_conv')

lemma diffDocuments_editDocument [simp]: "diffDocuments (editDocument uri t dm) = diffDocuments dm"
  by (simp add: editDocument_def)

text \<open>
  Claim C7. Accepting an open diff fires one notification with the file path of the diff
  and the text its right-hand document has at that time (the proposed content after
  \<^verbatim>\<open>showDiff\<close>, the edited text after an edit), and removes the diff's record and its
  entry in the provider; accepting it again, or accepting a URI that has no record,
  fires nothing and leaves the state as it is.
\<close>

theorem accept_reports_and_removes:
  "(map_of (diffDocuments dm) uri = Some info \<longrightarrow>
      fst (acceptDiff uri dm) = [DiffAccepted (originalFilePath info) (currentText uri dm)]
    \<and> map_of (diffDocuments (snd (acceptDiff uri dm))) uri = None
    \<and> map_of (content (snd (acceptDiff uri dm))) uri = None
    \<and> acceptDiff uri (snd (acceptDiff uri dm)) = ([], snd (acceptDiff uri dm)))
   \<and> (map_of (diffDocuments dm) uri = None \<longrightarrow> acceptDiff uri dm = ([], dm))
   \<and> fst (acceptDiff (diffUri p r) (showDiff p c r ex dm)) = [DiffAccepted p c]
   \<and> fst (acceptDiff (diffUri p r) (editDocument (diffUri p r) t (showDiff p c r ex dm)))
       = [DiffAccepted p t]"
proof -
  have known: "fst (acceptDiff uri dm) = [DiffAccepted (originalFilePath info) (currentText uri dm)]
    \<and> map_of (diffDocuments (snd (acceptDiff uri dm))) uri = None
    \<and> map_of (content (snd (acceptDiff uri dm))) uri = None
    \<and> acceptDiff uri (snd (acceptDiff uri dm)) = ([], snd (acceptDiff uri dm))"
    if h: "map_of (diffDocuments dm) uri = Some info"
  proof -
    let ?dm1 = "snd (openTextDocument uri dm)"
    have h1: "map_of (diffDocuments ?dm1) uri = Some info" using h by simp
    have a: "acceptDiff uri dm =
      ([DiffAccepted (originalFilePath info) (currentText uri dm)], closeDiffEditor uri ?dm1)"
      by (rule acceptDiff_known[OF h])
    have gone: "map_of (diffDocuments (closeDiffEditor uri ?dm1)) uri = None"
      by (simp add: diffDocuments_closeDiffEditor)
    have cache: "map_of (content (closeDiffEditor uri ?dm1)) uri = None"
      by (simp add: content_closeDiffEditor[OF h1])
    from a gone cache acceptDiff_unknown[OF gone] show ?thesis by simp
  qed
  have reg: "map_of (diffDocuments (showDiff p c r ex dm)) (diffUri p r)
      = Some \<lparr>originalFilePath = p, newContent = c, rightDocUri = diffUri p r\<rparr>"
    by (simp add: showDiff_diffDocuments update_conv')
  have plain: "fst (acceptDiff (diffUri p r) (showDiff p c r ex dm)) = [DiffAccepted p c]"
    by (simp add: acceptDiff_known[OF reg] showDiff_currentText)
  have reg': "map_of (diffDocuments (editDocument (diffUri p r) t (showDiff p c r ex dm))) (diffUri p r)
      = Some \<lparr>originalFilePath = p, newContent = c, rightDocUri = diffUri p r\<rparr>"
    using reg by simp
  have edited: "fst (acceptDiff (diffUri p r) (editDocument (diffUri p r) t (showDiff p c r ex dm)))
       = [DiffAccepted p t]"
    by (simp add: acceptDiff_known[OF reg'] editDocument_currentText)
  from known plain edited acceptDiff_unknown show ?thesis by blast
qed

lemma tabs_openTextDocument [simp]: "tabs (vscode (snd (openTextDocument uri dm))) = tabs (vscode dm)"
  by (simp add: openTextDocument_def Let_def split: option.splits)

lemma showDiff_tab: "diffUri p r \<in> snd ` set (tabs (vscode (showDiff p c r ex dm)))"
  by (simp add: showDiff_def Let_def vscode_diff_def diffUri_def image_iff) force

lemma showDiff_tabs_mono: "set (tabs (vscode dm)) \<subseteq> set (tabs (vscode (showDiff p c r ex dm)))"
  by (auto simp: showDiff_def Let_def vscode_diff_def setContext_def addDiffDocument_def setContent_def)

text \<open>
  Claim C6, as amended. Two calls of \<^verbatim>\<open>showDiff\<close> for the same path in which
  \<^verbatim>\<open>Math.random()\<close> returns different numbers give two different document URIs, both
  registered afterwards with their own record, provider content and tab: the second call
  neither replaces nor closes the first diff.
\<close>

theorem two_opens_two_entries:
  assumes "r1 \<noteq> r2"
  shows "diffUri p r1 \<noteq> diffUri p r2
   \<and> map_of (diffDocuments (showDiff p c2 r2 ex2 (showDiff p c1 r1 ex1 dm))) (diffUri p r1)
       = Some \<lparr>originalFilePath = p, newContent = c1, rightDocUri = diffUri p r1\<rparr>
   \<and> map_of (diffDocuments (showDiff p c2 r2 ex2 (showDiff p c1 r1 ex1 dm))) (diffUri p r2)
       = Some \<lparr>originalFilePath = p, newContent = c2, rightDocUri = diffUri p r2\<rparr>
   \<and> map_of (content (showDiff p c2 r2 ex2 (showDiff p c1 r1 ex1 dm))) (diffUri p r1) = Some c1
   \<and> map_of (content (showDiff p c2 r2 ex2 (showDiff p c1 r1 ex1 dm))) (diffUri p r2) = Some c2
   \<and> diffUri p r1 \<in> snd ` set (tabs (vscode (showDiff p c2 r2 ex2 (showDiff p c1 r1 ex1 dm))))
   \<and> diffUri p r2 \<in> snd ` set (tabs (vscode (showDiff p c2 r2 ex2 (showDiff p c1 r1 ex1 dm))))
   \<and> diffDocuments (showDiff p c2 r2 ex2 (showDiff p c1 r1 ex1 emptyDiffManager))
       = [(diffUri p r1, \<lparr>originalFilePath = p, newContent = c1, rightDocUri = diffUri p r1\<rparr>),
          (diffUri p r2, \<lparr>originalFilePath = p, newContent = c2, rightDocUri = diffUri p r2\<rparr>)]"
proof -
  have ne: "diffUri p r1 \<noteq> diffUri p r2" using assms by (simp add: diffUri_def)
  have t1: "diffUri p r1 \<in> snd ` set (tabs (vscode (showDiff p c2 r2 ex2 (showDiff p c1 r1 ex1 dm))))"
    by (rule subsetD[OF image_mono[OF showDiff_tabs_mono] showDiff_tab])
  have t2: "diffUri p r2 \<in> snd ` set (tabs (vscode (showDiff p c2 r2 ex2 (showDiff p c1 r1 ex1 dm))))"
    by (rule showDiff_tab)
  from ne t1 t2 show ?thesis
    by (simp add: showDiff_diffDocuments showDiff_content update_conv' emptyDiffManager_def)
qed

theorem two_opens_two_entries_witness:
  "''0.25'' \<noteq> ''0.75''
   \<and> diffDocuments (showDiff ''a.txt'' ''x'' ''0.75'' True (showDiff ''a.txt'' ''x'' ''0.25'' True emptyDiffManager))
       = [(\<lparr>scheme = ''gemini-diff'', fsPath = ''a.txt'', query = ''rand=0.25''\<rparr>,
           \<lparr>originalFilePath = ''a.txt'', newContent = ''x'',
            rightDocUri = \<lparr>scheme = ''gemini-diff'', fsPath = ''a.txt'', query = ''rand=0.25''\<rparr>\<rparr>),
          (\<lparr>scheme = ''gemini-diff'', fsPath = ''a.txt'', query = ''rand=0.75''\<rparr>,
           \<lparr>originalFilePath = ''a.txt'', newContent = ''x'',
            rightDocUri = \<lparr>scheme = ''gemini-diff'', fsPath = ''a.txt'', query = ''rand=0.75''\<rparr>\<rparr>)]"
proof -
  have h: "''0.25'' \<noteq> ''0.75''" by simp
  from two_opens_two_entries[OF h, of "''a.txt''" "''x''" True "''x''" True emptyDiffManager] h
  show ?thesis by (simp add: diffUri_def DIFF_SCHEME_def)
qed

text \<open>
  Claim C6 as stated: nothing in \<^verbatim>\<open>showDiff\<close> keeps the random component from being
  drawn again, and with the same component the second call writes over the record of
  the first, so that one entry is registered.
\<close>

theorem two_opens_counterexample:
  "diffDocuments (showDiff ''a.txt'' ''x'' ''0.5'' True (showDiff ''a.txt'' ''x'' ''0.5'' True emptyDiffManager))
     = [(\<lparr>scheme = ''gemini-diff'', fsPath = ''a.txt'', query = ''rand=0.5''\<rparr>,
         \<lparr>originalFilePath = ''a.txt'', newContent = ''x'',
          rightDocUri = \<lparr>scheme = ''gemini-diff'', fsPath = ''a.txt'', query = ''rand=0.5''\<rparr>\<rparr>)]"
  by (simp add: showDiff_diffDocuments diffUri_def DIFF_SCHEME_def emptyDiffManager_def)

theorem accept_reports_and_removes_witness:
  "map_of (diffDocuments (editDocument (diffUri ''a.txt'' ''0.5'') ''edited''
                            (showDiff ''a.txt'' ''x'' ''0.5'' True emptyDiffManager)))
          (diffUri ''a.txt'' ''0.5'')
     = Some \<lparr>originalFilePath = ''a.txt'', newContent = ''x'', rightDocUri = diffUri ''a.txt'' ''0.5''\<rparr>
   \<and> fst (acceptDiff (diffUri ''a.txt'' ''0.5'')
            (editDocument (diffUri ''a.txt'' ''0.5'') ''edited''
               (showDiff ''a.txt'' ''x'' ''0.5'' True emptyDiffManager)))
     = [DiffAccepted ''a.txt'' ''edited'']
   \<and> map_of (diffDocuments emptyDiffManager) (diffUri ''a.txt'' ''0.5'') = None
   \<and> acceptDiff (diffUri ''a.txt'' ''0.5'') emptyDiffManager = ([], emptyDiffManager)"
proof -
  let ?u = "diffUri ''a.txt'' ''0.5''"
  let ?dm = "editDocument ?u ''edited'' (showDiff ''a.txt'' ''x'' ''0.5'' True emptyDiffManager)"
  let ?info = "\<lparr>originalFilePath = ''a.txt'', newContent = ''x'', rightDocUri = ?u\<rparr>"
  have h: "map_of (diffDocuments ?dm) ?u = Some ?info"
    by (simp add: showDiff_diffDocuments update_conv')
  have t: "currentText ?u ?dm = ''edited''" by (rule editDocument_currentText)
  have n: "map_of (diffDocuments emptyDiffManager) ?u = None" by (simp add: emptyDiffManager_def)
  from accept_reports_and_removes[of ?dm ?u ?info] h
  have "fst (acceptDiff ?u ?dm) = [DiffAccepted (originalFilePath ?info) (currentText ?u ?dm)]"
    by blast
  moreover from accept_reports_and_removes[of emptyDiffManager ?u] n
  have "acceptDiff ?u emptyDiffManager = ([], emptyDiffManager)" by blast
  ultimately show ?thesis using h t n by simp
qed

section \<open>The server\<close>

lemma split_nonempty: "split c xs \<noteq> []"
  by (induction xs) (auto split: list.splits)

lemma split_singleton: "split c xs = [b] \<Longrightarrow> xs = b"
proof (induction xs arbitrary: b)
  case Nil then show ?case by simp
next
  case (Cons x xs)
  then show ?case using split_nonempty[of c xs] by (auto split: if_splits list.splits)
qed

lemma split_pair: "split c xs = [a, b] \<Longrightarrow> xs = a @ c # b"
proof (induction xs arbitrary: a)
  case Nil then show ?case by simp
next
  case (Cons x xs)
  show ?case
  proof (cases "x = c")
    case True
    with Cons.prems have "a = []" "split c xs = [b]" by simp_all
    with True split_singleton[of c xs b] show ?thesis by simp
  next
    case False
    with Cons.prems obtain y where "split c xs = [y, b]" "a = x # y"
      using split_nonempty[of c xs] by (auto split: list.splits)
    with Cons.IH[of y] show ?thesis by simp
  qed
qed

lemma authenticate_None:
  assumes "authenticate srv req = None"
  shows "validAuthorization srv req"
proof -
  from assms obtain h where h: "authorization req = Some h"
    by (cases "authorization req") (auto simp: authenticate_def truthy_def)
  let ?parts = "split (CHR '' '') h"
  from assms h have len: "length ?parts = 2" and p0: "?parts ! 0 = ''Bearer''"
    and p1: "Some (?parts ! 1) = authToken srv"
    by (auto simp: authenticate_def Let_def split: if_splits)
  from len obtain a b where ab: "?parts = [a, b]"
    by (cases ?parts; cases "tl ?parts") auto
  with p0 p1 have "a = ''Bearer''" "authToken srv = Some b" by simp_all
  moreover from split_pair[OF ab] have "h = a @ CHR '' '' # b" .
  ultimately show ?thesis using h by (simp add: validAuthorization_def)
qed

lemma authenticate_Some: "authenticate srv req = Some res \<Longrightarrow> res = unauthorized"
  by (auto simp: authenticate_def Let_def split: if_splits)

text \<open>
  Claim C1, as amended. A request whose \<^verbatim>\<open>authorization\<close> header is not
  \<^verbatim>\<open>Bearer\<close>, one space and the server's token (absent, of another form, or with
  another token) never reaches a handler, whatever the SDK would do with it and whatever
  session id it carries: the server state, with the session table, the diff manager, the
  open-files manager and the messages sent, stays as it is. The answer is that of the
  first stage that stops the request, in the order of the application: the status of the
  body parser's error; 403 for a present origin; 204 for an \<^verbatim>\<open>OPTIONS\<close> request; 403
  for a host other than the server's own; and 401 \<^verbatim>\<open>Unauthorized\<close> for every request
  that gets as far as the authentication.
\<close>

theorem unauthenticated_request_rejected:
  assumes "\<not> validAuthorization srv req"
  shows "snd (app handleRequest req srv) = srv
     \<and> fst (app handleRequest req srv) =
         (case bodyRejected req of
            Some st \<Rightarrow> \<lparr>status = errorStatus st, responseBody = ExpressPage\<rparr>
          | None \<Rightarrow>
              if truthy (origin req)
              then \<lparr>status = 403, responseBody = JsonError ''Request denied by CORS policy.''\<rparr>
              else if route req = Options
              then \<lparr>status = 204, responseBody = Empty\<rparr>
              else if \<not> hostAllowed srv req
              then \<lparr>status = 403, responseBody = JsonError ''Invalid Host header''\<rparr>
              else \<lparr>status = 401, responseBody = Text ''Unauthorized''\<rparr>)"
proof -
  from assms authenticate_None have "authenticate srv req \<noteq> None" by blast
  then obtain res where "authenticate srv req = Some res" by auto
  with authenticate_Some[OF this] have "authenticate srv req = Some unauthorized" by simp
  then show ?thesis
    by (simp add: app_def unauthorized_def corsAllows_def split: option.splits)
qed

lemmas server_defs = app_def postMcp_def handleSessionRequest_def tryHandleRequest_def
  authenticate_def hostAllowed_def corsAllows_def truthy_def portText_def decimal.simps
  getProperty_def objectPrototypeNames_def isInitializeRequest_def exampleSdk_def
  onsessioninitialized_def updateTransport_def exampleRequest_def startedServer_def start_def
  unauthorized_def badRequest_def internalError_def

lemma establishedServer_eq:
  "establishedServer =
     \<lparr>port = Some 4000, authToken = Some ''secret'',
      transportObjects = [\<lparr>sessionId = Some ''s1'', missedPings = 0, keepAlive = True\<rparr>],
      transports = [(''s1'', 0)], sessionsWithInitialNotification = [],
      diffManager = emptyDiffManager, openFilesManager = Some emptyManager,
      workspaceTrusted = True, sent = []\<rparr>"
  by (simp add: establishedServer_def server_defs)

theorem unauthenticated_request_rejected_witness:
  "\<not> validAuthorization establishedServer
        (exampleRequest PostMcp (Some ''Bearer wrong'') (Some ''s1'') (CallTool (OpenDiff ''a.txt'' ''x'')))
   \<and> corsAllows (exampleRequest PostMcp (Some ''Bearer wrong'') (Some ''s1'') (CallTool (OpenDiff ''a.txt'' ''x'')))
   \<and> hostAllowed establishedServer
        (exampleRequest PostMcp (Some ''Bearer wrong'') (Some ''s1'') (CallTool (OpenDiff ''a.txt'' ''x'')))
   \<and> getProperty (transports establishedServer) ''s1'' = Own 0
   \<and> app (exampleSdk ''s2'' ''0.5'' True)
        (exampleRequest PostMcp (Some ''Bearer wrong'') (Some ''s1'') (CallTool (OpenDiff ''a.txt'' ''x'')))
        establishedServer
       = (\<lparr>status = 401, responseBody = Text ''Unauthorized''\<rparr>, establishedServer)
   \<and> app (exampleSdk ''s2'' ''0.5'' True)
        (exampleRequest Options None (Some ''s1'') OtherMessage)
        establishedServer
       = (\<lparr>status = 204, responseBody = Empty\<rparr>, establishedServer)
   \<and> app (exampleSdk ''s2'' ''0.5'' True)
        ((exampleRequest PostMcp None (Some ''s1'') OtherMessage)\<lparr>bodyRejected := Some 400\<rparr>)
        establishedServer
       = (\<lparr>status = 400, responseBody = ExpressPage\<rparr>, establishedServer)"
proof -
  let ?sdk = "exampleSdk ''s2'' ''0.5'' True"
  let ?req = "exampleRequest PostMcp (Some ''Bearer wrong'') (Some ''s1'') (CallTool (OpenDiff ''a.txt'' ''x''))"
  let ?opt = "exampleRequest Options None (Some ''s1'') OtherMessage"
  let ?bad = "(exampleRequest PostMcp None (Some ''s1'') OtherMessage)\<lparr>bodyRejected := Some 400\<rparr>"
  have h: "\<not> validAuthorization establishedServer ?req"
    by (simp add: establishedServer_eq validAuthorization_def exampleRequest_def)
  have ho: "\<not> validAuthorization establishedServer ?opt"
    by (simp add: establishedServer_eq validAuthorization_def exampleRequest_def)
  have hb: "\<not> validAuthorization establishedServer ?bad"
    by (simp add: establishedServer_eq validAuthorization_def exampleRequest_def)
  have c: "corsAllows ?req" by (simp add: corsAllows_def truthy_def exampleRequest_def)
  have a: "hostAllowed establishedServer ?req"
    by (simp add: establishedServer_eq hostAllowed_def truthy_def exampleRequest_def portText_def decimal.simps)
  have k: "getProperty (transports establishedServer) ''s1'' = Own 0"
    by (simp add: establishedServer_eq getProperty_def)
  have f: "bodyRejected ?req = None" "\<not> truthy (origin ?req)" "route ?req \<noteq> Options"
    "bodyRejected ?opt = None" "\<not> truthy (origin ?opt)" "route ?opt = Options"
    "bodyRejected ?bad = Some 400"
    by (simp_all add: exampleRequest_def truthy_def)
  from unauthenticated_request_rejected[OF h, of ?sdk] a f
  have 1: "app ?sdk ?req establishedServer
       = (\<lparr>status = 401, responseBody = Text ''Unauthorized''\<rparr>, establishedServer)"
    by (simp add: prod_eq_iff)
  from unauthenticated_request_rejected[OF ho, of ?sdk] f
  have 2: "app ?sdk ?opt establishedServer = (\<lparr>status = 204, responseBody = Empty\<rparr>, establishedServer)"
    by (simp add: prod_eq_iff)
  from unauthenticated_request_rejected[OF hb, of ?sdk] f
  have 3: "app ?sdk ?bad establishedServer = (\<lparr>status = 400, responseBody = ExpressPage\<rparr>, establishedServer)"
    by (simp add: prod_eq_iff errorStatus_def)
  from h c a k 1 2 3 show ?thesis by blast
qed

lemma authorized_tool_call_runs:
  "diffDocuments (diffManager (snd (app (exampleSdk ''s2'' ''0.5'' True)
        (exampleRequest PostMcp (Some ''Bearer secret'') (Some ''s1'') (CallTool (OpenDiff ''a.txt'' ''x'')))
        establishedServer)))
     = [(diffUri ''a.txt'' ''0.5'',
         \<lparr>originalFilePath = ''a.txt'', newContent = ''x'', rightDocUri = diffUri ''a.txt'' ''0.5''\<rparr>)]"
  by (simp add: establishedServer_eq server_defs openDiffTool_def showDiff_diffDocuments emptyDiffManager_def)

text \<open>
  Claim C1 as stated fails for a request without \<^verbatim>\<open>authorization\<close> header that
  carries an \<^verbatim>\<open>origin\<close> header: the origin callback answers first, with 403.
\<close>

theorem unauthenticated_foreign_origin_counterexample:
  "authorization ((exampleRequest PostMcp None (Some ''s1'') OtherMessage)\<lparr>origin := Some ''http://example.test''\<rparr>)
     = None
   \<and> app (exampleSdk ''s2'' ''0.5'' True)
        ((exampleRequest PostMcp None (Some ''s1'') OtherMessage)\<lparr>origin := Some ''http://example.test''\<rparr>)
        establishedServer
       = (\<lparr>status = 403, responseBody = JsonError ''Request denied by CORS policy.''\<rparr>,
          establishedServer)"
  by (simp add: app_def corsAllows_def truthy_def exampleRequest_def)

lemma unknown_session_bad_request:
  assumes "bodyRejected req = None" "corsAllows req" "hostAllowed srv req"
    and "authenticate srv req = None" "route req = PostMcp"
    and "\<not> isInitializeRequest (body req)"
    and "\<not> truthy (mcpSessionId req) \<or> getProperty (transports srv) (the (mcpSessionId req)) = Undefined"
  shows "app handleRequest req srv = (badRequest, srv)"
  using assms by (auto simp: app_def postMcp_def Let_def)

text \<open>
  Claim C2 at the session id \<^verbatim>\<open>constructor\<close>, which no session has: the lookup in
  the session table finds the member inherited from \<^verbatim>\<open>Object.prototype\<close>, the handler
  takes it for the session's transport, and the request, which passes the body parser and
  the three checks and is no initialize request, is answered with 500 and code -32603 instead of 400 and code
  -32000. The session table stays as it is. For a session id that is neither in the table
  nor such a member name the answer is the 400 of the claim
  (\<open>unknown_session_bad_request\<close>).
\<close>

theorem inherited_session_id_internal_error:
  "map_of (transports establishedServer) ''constructor'' = None
   \<and> \<not> isInitializeRequest OtherMessage
   \<and> authenticate establishedServer
        (exampleRequest PostMcp (Some ''Bearer secret'') (Some ''constructor'') OtherMessage) = None
   \<and> app (exampleSdk ''s2'' ''0.5'' True)
        (exampleRequest PostMcp (Some ''Bearer secret'') (Some ''constructor'') OtherMessage)
        establishedServer
       = (\<lparr>status = 500, responseBody = JsonRpcError (-32603) ''Internal server error''\<rparr>,
          establishedServer)"
  by (simp add: establishedServer_eq server_defs)

theorem inherited_session_id_internal_error_witness:
  "status (fst (app (exampleSdk ''s2'' ''0.5'' True)
        (exampleRequest PostMcp (Some ''Bearer secret'') (Some ''constructor'') OtherMessage)
        establishedServer)) = 500
   \<and> transports (snd (app (exampleSdk ''s2'' ''0.5'' True)
        (exampleRequest PostMcp (Some ''Bearer secret'') (Some ''constructor'') OtherMessage)
        establishedServer)) = [(''s1'', 0)]"
  using inherited_session_id_internal_error by (simp add: establishedServer_eq)

lemma length_updateTransport [simp]:
  "length (transportObjects (updateTransport t f srv)) = length (transportObjects srv)"
  by (simp add: updateTransport_def)

lemma transports_updateTransport [simp]: "transports (updateTransport t f srv) = transports srv"
  by (simp add: updateTransport_def)

lemma sent_updateTransport [simp]: "sent (updateTransport t f srv) = sent srv"
  by (simp add: updateTransport_def)

lemma nth_updateTransport [simp]:
  "t < length (transportObjects srv) \<Longrightarrow>
     transportObjects (updateTransport t f srv) ! t = f (transportObjects srv ! t)"
  by (simp add: updateTransport_def)

lemma transportObjects_send [simp]: "transportObjects (send t msg srv) = transportObjects srv"
  by (simp add: send_def)

lemma transports_send [simp]: "transports (send t msg srv) = transports srv"
  by (simp add: send_def)

lemma length_keepAliveFires [simp]:
  "length (transportObjects (keepAliveFires t d srv)) = length (transportObjects srv)"
  by (simp add: keepAliveFires_def Let_def)

lemma transports_keepAliveFires [simp]: "transports (keepAliveFires t d srv) = transports srv"
  by (simp add: keepAliveFires_def Let_def)

lemma length_fold_keepAliveFires [simp]:
  "length (transportObjects (fold (keepAliveFires t) ds srv)) = length (transportObjects srv)"
  by (induction ds arbitrary: srv) simp_all





















end
